theory Spec2Isabelle
  imports Main "HOL-Library.AList"
begin

section \<open>Data model (src/analyzer/types.ts)\<close>

datatype NodeType = File | Function | Class | Method | Interface | Type | Variable

datatype EdgeType = Import | Export | Call | Extends | Implements | Reference

text \<open>
  The metadata bag of a node or edge.  The extractor writes one fixed shape per kind of
  node or edge, so the bag is a datatype with one constructor per shape.  No shape has a
  key \<open>name\<close>.
\<close>

datatype Metadata =
    NoMetadata
  | EmptyMetadata
  | FileMetadata (fullPath: string)
  | FunctionMetadata bool bool "string list" "string option"
  | ClassMetadata bool "string option" "string list"
  | MethodMetadata bool bool bool "string list" "string option"
  | ImportMetadata bool bool
  | ParentChildMetadata

fun metadata_name :: "Metadata \<Rightarrow> string option" where
  "metadata_name m = None"

record GraphNode =
  n_id :: string
  n_label :: string
  n_type :: NodeType
  n_filePath :: string
  n_line :: "int option"
  n_column :: "int option"
  n_parentId :: "string option"
  n_metadata :: Metadata

record GraphEdge =
  e_id :: string
  e_source :: string
  e_target :: string
  e_type :: EdgeType
  e_label :: "string option"
  e_metadata :: Metadata

record GraphData =
  nodes :: "GraphNode list"
  edges :: "GraphEdge list"

record FileInfo =
  path :: string
  content :: string

record FunctionInfo =
  fn_name :: string
  fn_filePath :: string
  fn_line :: int
  fn_column :: int
  fn_isExported :: bool
  fn_isAsync :: bool
  fn_parameters :: "string list"
  fn_returnType :: "string option"

record MethodInfo =
  m_name :: string
  m_filePath :: string
  m_line :: int
  m_column :: int
  m_isPublic :: bool
  m_isStatic :: bool
  m_isAsync :: bool
  m_parameters :: "string list"
  m_returnType :: "string option"

record ClassInfo =
  cls_name :: string
  cls_filePath :: string
  cls_line :: int
  cls_column :: int
  cls_isExported :: bool
  cls_extends :: "string option"
  cls_implements :: "string list"
  cls_methods :: "MethodInfo list"

record ImportInfo =
  imp_from :: string
  imp_imports :: "string list"
  imp_isDefault :: bool
  imp_isNamespace :: bool

text \<open>
  The analysis result handed to the extractor.  Its \<open>exports\<close> list is never read by
  the extractor and is left out.
\<close>

record AnalysisResult =
  ar_files :: "FileInfo list"
  ar_functions :: "FunctionInfo list"
  ar_classes :: "ClassInfo list"
  ar_imports :: "ImportInfo list"

section \<open>JavaScript strings and the POSIX path module\<close>

definition startsWith :: "string \<Rightarrow> string \<Rightarrow> bool" where
  "startsWith s p = (take (length p) s = p)"

definition endsWith :: "string \<Rightarrow> string \<Rightarrow> bool" where
  "endsWith s t = (length t \<le> length s \<and> drop (length s - length t) s = t)"

fun str_includes :: "string \<Rightarrow> string \<Rightarrow> bool" where
  "str_includes [] t = (t = [])"
| "str_includes (c # cs) t = (startsWith (c # cs) t \<or> str_includes cs t)"

text \<open>JavaScript truthiness of a string: the empty string is falsy.\<close>

definition truthy :: "string \<Rightarrow> bool" where
  "truthy s = (s \<noteq> [])"

text \<open>
  \<open>path.isAbsolute\<close> and \<open>path.basename\<close> of Node's POSIX path module: a path is
  absolute when it starts with a slash; the basename is the last segment once trailing
  slashes are dropped.
\<close>

definition path_isAbsolute :: "string \<Rightarrow> bool" where
  "path_isAbsolute p = (case p of [] \<Rightarrow> False | c # _ \<Rightarrow> c = CHR ''/'')"

definition path_basename :: "string \<Rightarrow> string" where
  "path_basename p =
     rev (takeWhile (\<lambda>c. c \<noteq> CHR ''/'') (dropWhile (\<lambda>c. c = CHR ''/'') (rev p)))"

section \<open>File path resolution (DependencyExtractor.findTargetFilePath)\<close>

definition matchingFiles :: "string \<Rightarrow> FileInfo list \<Rightarrow> FileInfo list" where
  "matchingFiles targetFile fs =
     filter (\<lambda>f. path_basename (path f) = path_basename targetFile
                 \<or> endsWith (path f) targetFile) fs"

definition findTargetFilePath :: "string \<Rightarrow> FileInfo list \<Rightarrow> string option" where
  "findTargetFilePath targetFile fs =
     (if path_isAbsolute targetFile
      then map_option path (find (\<lambda>f. path f = targetFile) fs)
      else (case matchingFiles targetFile fs of
              [f] \<Rightarrow> Some (path f)
            | f # g # rest \<Rightarrow>
                (case sort_key (\<lambda>a. length (path a)) (f # g # rest) of
                   [] \<Rightarrow> None
                 | s # _ \<Rightarrow> Some (path s))
            | [] \<Rightarrow>
                map_option path
                  (find (\<lambda>f. endsWith (path f) targetFile \<or> str_includes (path f) targetFile) fs)))"

section \<open>The extractor's state (class DependencyExtractor)\<close>

text \<open>
  A JavaScript \<open>Map\<close> keeps its keys in insertion order: it is an association list,
  read with \<open>map_of\<close> and written with \<open>AList.update\<close>, which overwrites a present key
  in place and appends an absent one.
\<close>

record ExtractorState =
  nodeMap :: "(string \<times> GraphNode) list"
  edgeMap :: "(string \<times> GraphEdge) list"
  fileToNodes :: "(string \<times> string list) list"

definition map_has :: "('k \<times> 'v) list \<Rightarrow> 'k \<Rightarrow> bool" where
  "map_has m k = (map_of m k \<noteq> None)"

definition cleared :: ExtractorState where
  "cleared = \<lparr>nodeMap = [], edgeMap = [], fileToNodes = []\<rparr>"

text \<open>
  \<open>if (!this.fileToNodes.has(p)) this.fileToNodes.set(p, []); this.fileToNodes.get(p)!.push(id)\<close>
\<close>

definition pushFileNode :: "string \<Rightarrow> string \<Rightarrow> ExtractorState \<Rightarrow> ExtractorState" where
  "pushFileNode filePath nodeId s =
     (case map_of (fileToNodes s) filePath of
        None \<Rightarrow> s\<lparr>fileToNodes := AList.update filePath [nodeId] (fileToNodes s)\<rparr>
      | Some ids \<Rightarrow> s\<lparr>fileToNodes := AList.update filePath (ids @ [nodeId]) (fileToNodes s)\<rparr>)"

text \<open>\<open>this.fileToNodes.get(p) || []\<close>\<close>

definition fileNodesOf :: "ExtractorState \<Rightarrow> string \<Rightarrow> string list" where
  "fileNodesOf s filePath = (case map_of (fileToNodes s) filePath of None \<Rightarrow> [] | Some ids \<Rightarrow> ids)"

text \<open>\<open>if (!this.edgeMap.has(edge.id)) this.edgeMap.set(edge.id, edge)\<close>\<close>

definition addEdge :: "GraphEdge \<Rightarrow> ExtractorState \<Rightarrow> ExtractorState" where
  "addEdge e s =
     (if map_has (edgeMap s) (e_id e) then s
      else s\<lparr>edgeMap := AList.update (e_id e) e (edgeMap s)\<rparr>)"

section \<open>Node creation\<close>

definition createFileNode :: "string \<Rightarrow> ExtractorState \<Rightarrow> ExtractorState" where
  "createFileNode filePath s =
     (let nodeId = ''file:'' @ filePath;
          fileName = path_basename filePath
      in if \<not> map_has (nodeMap s) nodeId
         then pushFileNode filePath nodeId
                (s\<lparr>nodeMap := AList.update nodeId
                      \<lparr>n_id = nodeId, n_label = fileName, n_type = File, n_filePath = filePath,
                       n_line = None, n_column = None, n_parentId = None,
                       n_metadata = FileMetadata filePath\<rparr> (nodeMap s)\<rparr>)
         else s)"

definition createFunctionNode :: "FunctionInfo \<Rightarrow> ExtractorState \<Rightarrow> ExtractorState" where
  "createFunctionNode func s =
     (let nodeId = ''function:'' @ fn_filePath func @ '':'' @ fn_name func;
          fileNodeId = ''file:'' @ fn_filePath func
      in if \<not> map_has (nodeMap s) nodeId
         then pushFileNode (fn_filePath func) nodeId
                (s\<lparr>nodeMap := AList.update nodeId
                      \<lparr>n_id = nodeId, n_label = fn_name func, n_type = Function,
                       n_filePath = fn_filePath func,
                       n_line = Some (fn_line func), n_column = Some (fn_column func),
                       n_parentId = Some fileNodeId,
                       n_metadata = FunctionMetadata (fn_isExported func) (fn_isAsync func)
                                      (fn_parameters func) (fn_returnType func)\<rparr> (nodeMap s)\<rparr>)
         else s)"

definition createClassNode :: "ClassInfo \<Rightarrow> ExtractorState \<Rightarrow> ExtractorState" where
  "createClassNode cls s =
     (let nodeId = ''class:'' @ cls_filePath cls @ '':'' @ cls_name cls;
          fileNodeId = ''file:'' @ cls_filePath cls
      in if \<not> map_has (nodeMap s) nodeId
         then pushFileNode (cls_filePath cls) nodeId
                (s\<lparr>nodeMap := AList.update nodeId
                      \<lparr>n_id = nodeId, n_label = cls_name cls, n_type = Class,
                       n_filePath = cls_filePath cls,
                       n_line = Some (cls_line cls), n_column = Some (cls_column cls),
                       n_parentId = Some fileNodeId,
                       n_metadata = ClassMetadata (cls_isExported cls) (cls_extends cls)
                                      (cls_implements cls)\<rparr> (nodeMap s)\<rparr>)
         else s)"

text \<open>A method node is stored in the node map only: it is not pushed to \<open>fileToNodes\<close>.\<close>

definition createMethodNode :: "MethodInfo \<Rightarrow> ClassInfo \<Rightarrow> ExtractorState \<Rightarrow> ExtractorState" where
  "createMethodNode method cls s =
     (let nodeId = ''method:'' @ m_filePath method @ '':'' @ cls_name cls @ ''.'' @ m_name method;
          classNodeId = ''class:'' @ m_filePath method @ '':'' @ cls_name cls
      in if \<not> map_has (nodeMap s) nodeId
         then s\<lparr>nodeMap := AList.update nodeId
                      \<lparr>n_id = nodeId, n_label = cls_name cls @ ''.'' @ m_name method,
                       n_type = Method, n_filePath = m_filePath method,
                       n_line = Some (m_line method), n_column = Some (m_column method),
                       n_parentId = Some classNodeId,
                       n_metadata = MethodMetadata (m_isPublic method) (m_isStatic method)
                                      (m_isAsync method) (m_parameters method)
                                      (m_returnType method)\<rparr> (nodeMap s)\<rparr>
         else s)"

section \<open>Lookups by name\<close>

definition findNodeByName :: "string \<Rightarrow> NodeType \<Rightarrow> ExtractorState \<Rightarrow> string option" where
  "findNodeByName name ty s =
     map_option fst (find (\<lambda>(nodeId, node). n_label node = name \<and> n_type node = ty) (nodeMap s))"

definition findFileByExport :: "string \<Rightarrow> ExtractorState \<Rightarrow> string option" where
  "findFileByExport exportName s =
     map_option (\<lambda>(nodeId, node). n_filePath node)
       (find (\<lambda>(nodeId, node).
                (n_type node = File \<and> n_label node = exportName)
              \<or> (n_label node = exportName \<and> (n_type node = Function \<or> n_type node = Class)))
             (nodeMap s))"

text \<open>The first function node among the nodes indexed under the file of \<open>callNode\<close>.\<close>

definition findCallerNode :: "GraphNode \<Rightarrow> ExtractorState \<Rightarrow> string option" where
  "findCallerNode callNode s =
     find (\<lambda>nodeId. case map_of (nodeMap s) nodeId of
                       None \<Rightarrow> False
                     | Some node \<Rightarrow> n_type node = Function)
          (fileNodesOf s (n_filePath callNode))"

section \<open>Import edges (createImportEdges)\<close>

definition importEdge :: "ImportInfo \<Rightarrow> string \<Rightarrow> string \<Rightarrow> string \<Rightarrow> GraphEdge" where
  "importEdge importInfo importName sourceId targetId =
     \<lparr>e_id = ''import:'' @ sourceId @ '':'' @ targetId, e_source = sourceId, e_target = targetId,
      e_type = Import, e_label = Some importName,
      e_metadata = ImportMetadata (imp_isDefault importInfo) (imp_isNamespace importInfo)\<rparr>"

text \<open>
  The nodes of the file named by \<open>importInfo.from\<close>; when there are none and the file has
  no node yet, the file node is created first.
\<close>

definition importSourceNodes :: "ImportInfo \<Rightarrow> ExtractorState \<Rightarrow> ExtractorState \<times> string list" where
  "importSourceNodes importInfo s =
     (let sourceFileNodes = fileNodesOf s (imp_from importInfo)
      in if length sourceFileNodes = 0
         then (if \<not> map_has (nodeMap s) (''file:'' @ imp_from importInfo)
               then (let s' = createFileNode (imp_from importInfo) s
                     in (s', sourceFileNodes @ fileNodesOf s' (imp_from importInfo)))
               else (s, sourceFileNodes))
         else (s, sourceFileNodes))"

text \<open>
  The import edge between two nodes, added when the target node is stored and carries the
  imported name as its label.
\<close>

definition importTarget_step ::
  "ImportInfo \<Rightarrow> string \<Rightarrow> string \<Rightarrow> string \<Rightarrow> ExtractorState \<Rightarrow> ExtractorState" where
  "importTarget_step importInfo importName sourceNodeId targetNodeId s =
     (case map_of (nodeMap s) targetNodeId of
        None \<Rightarrow> s
      | Some targetNode \<Rightarrow>
          if n_label targetNode = importName
          then addEdge (importEdge importInfo importName sourceNodeId targetNodeId) s
          else s)"

text \<open>
  The file-to-file edge: from \<open>sourceFileNodes[0]\<close> to the file node of the target file,
  when both are stored.
\<close>

definition importFileEdge ::
  "ImportInfo \<Rightarrow> string \<Rightarrow> string list \<Rightarrow> string \<Rightarrow> ExtractorState \<Rightarrow> ExtractorState" where
  "importFileEdge importInfo importName sourceFileNodes targetFile s =
     (case sourceFileNodes of
        [] \<Rightarrow> s
      | sourceFileNodeId # _ \<Rightarrow>
          if map_has (nodeMap s) sourceFileNodeId \<and> map_has (nodeMap s) (''file:'' @ targetFile)
          then addEdge (importEdge importInfo importName sourceFileNodeId (''file:'' @ targetFile)) s
          else s)"

definition ensureTargetFile :: "string \<Rightarrow> ExtractorState \<Rightarrow> ExtractorState" where
  "ensureTargetFile targetFile s =
     (if \<not> map_has (fileToNodes s) targetFile then createFileNode targetFile s else s)"

text \<open>The body of the loop over the imported names.\<close>

definition importName_step ::
  "ImportInfo \<Rightarrow> string list \<Rightarrow> string \<Rightarrow> ExtractorState \<Rightarrow> ExtractorState" where
  "importName_step importInfo sourceFileNodes importName s =
     (case findFileByExport importName s of
        None \<Rightarrow> s
      | Some targetFile \<Rightarrow>
          if \<not> truthy targetFile then s
          else
            (let s1 = ensureTargetFile targetFile s;
                 targetNodes = fileNodesOf s1 targetFile
             in fold (\<lambda>sourceNodeId.
                        fold (importTarget_step importInfo importName sourceNodeId) targetNodes)
                     sourceFileNodes
                     (importFileEdge importInfo importName sourceFileNodes targetFile s1)))"

definition createImportEdges :: "ImportInfo \<Rightarrow> ExtractorState \<Rightarrow> ExtractorState" where
  "createImportEdges importInfo s =
     (case importSourceNodes importInfo s of
        (s', sourceFileNodes) \<Rightarrow>
          if length sourceFileNodes = 0 then s'
          else fold (importName_step importInfo sourceFileNodes) (imp_imports importInfo) s')"

section \<open>Call edges (extractCallEdges)\<close>

text \<open>
  The callee of a call expression of the TypeScript syntax tree: an identifier, a
  property access whose member name is an identifier or a private identifier, or any
  other expression.  A source file is the list of its call expressions in the order the
  depth-first \<open>visit\<close> meets them; the analyzer is its \<open>getSourceFile\<close>.
\<close>

datatype Callee =
    Identifier string
  | PropertyAccessIdentifier string
  | PropertyAccessPrivate string
  | OtherExpression

type_synonym SourceFile = "Callee list"

type_synonym TypeScriptAnalyzer = "string \<Rightarrow> SourceFile option"

fun calleeName :: "Callee \<Rightarrow> string option" where
  "calleeName (Identifier text) = (if truthy text then Some text else None)"
| "calleeName (PropertyAccessIdentifier text) = (if truthy text then Some text else None)"
| "calleeName (PropertyAccessPrivate text) = None"
| "calleeName OtherExpression = None"

definition callEdge :: "string \<Rightarrow> string \<Rightarrow> GraphEdge" where
  "callEdge callerNodeId nodeId =
     \<lparr>e_id = ''call:'' @ callerNodeId @ '':'' @ nodeId, e_source = callerNodeId,
      e_target = nodeId, e_type = Call, e_label = Some ''calls'', e_metadata = NoMetadata\<rparr>"

definition callTarget_step :: "string \<Rightarrow> string \<Rightarrow> ExtractorState \<Rightarrow> ExtractorState" where
  "callTarget_step functionName nodeId s =
     (case map_of (nodeMap s) nodeId of
        None \<Rightarrow> s
      | Some node \<Rightarrow>
          if n_label node = functionName \<or> metadata_name (n_metadata node) = Some functionName
          then (case findCallerNode node s of
                  None \<Rightarrow> s
                | Some callerNodeId \<Rightarrow>
                    if truthy callerNodeId then addEdge (callEdge callerNodeId nodeId) s else s)
          else s)"

definition visitCall :: "string \<Rightarrow> Callee \<Rightarrow> ExtractorState \<Rightarrow> ExtractorState" where
  "visitCall filePath callee s =
     (case calleeName callee of
        None \<Rightarrow> s
      | Some functionName \<Rightarrow> fold (callTarget_step functionName) (fileNodesOf s filePath) s)"

definition extractCallEdges :: "SourceFile \<Rightarrow> string \<Rightarrow> ExtractorState \<Rightarrow> ExtractorState" where
  "extractCallEdges sourceFile filePath s = fold (visitCall filePath) sourceFile s"

section \<open>Inheritance edges (createInheritanceEdges)\<close>

definition extendsEdge :: "string \<Rightarrow> string \<Rightarrow> GraphEdge" where
  "extendsEdge classNodeId extendsNodeId =
     \<lparr>e_id = ''extends:'' @ classNodeId @ '':'' @ extendsNodeId, e_source = classNodeId,
      e_target = extendsNodeId, e_type = Extends, e_label = Some ''extends'',
      e_metadata = NoMetadata\<rparr>"

definition implementsEdge :: "string \<Rightarrow> string \<Rightarrow> GraphEdge" where
  "implementsEdge classNodeId implementsNodeId =
     \<lparr>e_id = ''implements:'' @ classNodeId @ '':'' @ implementsNodeId, e_source = classNodeId,
      e_target = implementsNodeId, e_type = Implements, e_label = Some ''implements'',
      e_metadata = NoMetadata\<rparr>"

definition extends_step :: "string \<Rightarrow> string option \<Rightarrow> ExtractorState \<Rightarrow> ExtractorState" where
  "extends_step classNodeId ext s =
     (case ext of
        None \<Rightarrow> s
      | Some superName \<Rightarrow>
          if \<not> truthy superName then s
          else (case findNodeByName superName Class s of
                  None \<Rightarrow> s
                | Some extendsNodeId \<Rightarrow>
                    if \<not> truthy extendsNodeId then s
                    else addEdge (extendsEdge classNodeId extendsNodeId) s))"

definition implements_step :: "string \<Rightarrow> string \<Rightarrow> ExtractorState \<Rightarrow> ExtractorState" where
  "implements_step classNodeId interfaceName s =
     (case findNodeByName interfaceName Interface s of
        None \<Rightarrow> s
      | Some implementsNodeId \<Rightarrow>
          if \<not> truthy implementsNodeId then s
          else addEdge (implementsEdge classNodeId implementsNodeId) s)"

definition createInheritanceEdges :: "ClassInfo \<Rightarrow> ExtractorState \<Rightarrow> ExtractorState" where
  "createInheritanceEdges cls s =
     (let classNodeId = ''class:'' @ cls_filePath cls @ '':'' @ cls_name cls
      in fold (implements_step classNodeId) (cls_implements cls)
           (extends_step classNodeId (cls_extends cls) s))"

section \<open>Containment edges (createParentChildEdges)\<close>

definition parentEdge :: "string \<Rightarrow> string \<Rightarrow> GraphEdge" where
  "parentEdge parentId nodeId =
     \<lparr>e_id = ''parent:'' @ parentId @ '':'' @ nodeId, e_source = parentId, e_target = nodeId,
      e_type = Reference, e_label = Some ''contains'', e_metadata = ParentChildMetadata\<rparr>"

text \<open>
  One turn of the loop over the node map; the state is threaded together with the two
  counters \<open>edgeCount\<close> and \<open>skippedCount\<close> that the method logs at its end.
\<close>

definition parentChild_step ::
  "string \<times> GraphNode \<Rightarrow> ExtractorState \<times> nat \<times> nat \<Rightarrow> ExtractorState \<times> nat \<times> nat" where
  "parentChild_step entry acc =
     (case (entry, acc) of
        ((nodeId, node), (s, edgeCount, skippedCount)) \<Rightarrow>
          (case n_parentId node of
             None \<Rightarrow> (s, edgeCount, skippedCount)
           | Some parentId \<Rightarrow>
               if \<not> truthy parentId then (s, edgeCount, skippedCount)
               else if map_has (nodeMap s) parentId
               then (if \<not> map_has (edgeMap s) (''parent:'' @ parentId @ '':'' @ nodeId)
                     then (addEdge (parentEdge parentId nodeId) s, edgeCount + 1, skippedCount)
                     else (s, edgeCount, skippedCount))
               else (s, edgeCount, skippedCount + 1)))"

definition parentChildRun :: "ExtractorState \<Rightarrow> ExtractorState \<times> nat \<times> nat" where
  "parentChildRun s = fold parentChild_step (nodeMap s) (s, 0, 0)"

definition createParentChildEdges :: "ExtractorState \<Rightarrow> ExtractorState" where
  "createParentChildEdges s = fst (parentChildRun s)"

section \<open>The build pass (steps 1 to 8 of extractGraphData)\<close>

text \<open>
  The pass starts with the three \<open>clear()\<close> calls on the state it is given.
\<close>

definition clearState :: "ExtractorState \<Rightarrow> ExtractorState" where
  "clearState s = s\<lparr>nodeMap := [], edgeMap := [], fileToNodes := []\<rparr>"

definition buildGraph ::
  "ExtractorState \<Rightarrow> TypeScriptAnalyzer \<Rightarrow> AnalysisResult \<Rightarrow> ExtractorState" where
  "buildGraph s analyzer ar =
     (let s0 = clearState s;
          s1 = fold (\<lambda>file. createFileNode (path file)) (ar_files ar) s0;
          s2 = fold createFunctionNode (ar_functions ar) s1;
          s3 = fold createClassNode (ar_classes ar) s2;
          s4 = fold (\<lambda>cls. fold (\<lambda>method. createMethodNode method cls) (cls_methods cls))
                 (ar_classes ar) s3;
          s5 = fold createImportEdges (ar_imports ar) s4;
          s6 = fold (\<lambda>file st. case analyzer (path file) of
                                   None \<Rightarrow> st
                                 | Some sourceFile \<Rightarrow> extractCallEdges sourceFile (path file) st)
                 (ar_files ar) s5;
          s7 = fold createInheritanceEdges (ar_classes ar) s6
      in createParentChildEdges s7)"

definition graphOf :: "ExtractorState \<Rightarrow> GraphData" where
  "graphOf s = \<lparr>nodes = map snd (nodeMap s), edges = map snd (edgeMap s)\<rparr>"

section \<open>The context filter (filterGraphByLLMContext)\<close>

record RelatedHint =
  h_name :: string
  h_filePath :: "string option"

text \<open>
  A JavaScript \<open>Set\<close> of ids keeps insertion order: a list without repetitions, extended
  at its end.
\<close>

definition set_add :: "string \<Rightarrow> string list \<Rightarrow> string list" where
  "set_add x xs = (if x \<in> set xs then xs else xs @ [x])"

definition hasNode :: "GraphData \<Rightarrow> string \<Rightarrow> bool" where
  "hasNode g nodeId = list_ex (\<lambda>n. n_id n = nodeId) (nodes g)"

definition findNode :: "GraphData \<Rightarrow> string \<Rightarrow> GraphNode option" where
  "findNode g nodeId = find (\<lambda>n. n_id n = nodeId) (nodes g)"

subsection \<open>Seeds\<close>

definition seedFocusNodes :: "GraphData \<Rightarrow> string list option \<Rightarrow> string list \<Rightarrow> string list" where
  "seedFocusNodes g focusNodes rel =
     (case focusNodes of
        None \<Rightarrow> rel
      | Some ids \<Rightarrow> fold (\<lambda>nodeId r. if hasNode g nodeId then set_add nodeId r else r) ids rel)"

definition seedTargetFile :: "AnalysisResult \<Rightarrow> string option \<Rightarrow> string list \<Rightarrow> string list" where
  "seedTargetFile ar targetFile rel =
     (case targetFile of
        None \<Rightarrow> rel
      | Some tf \<Rightarrow>
          if \<not> truthy tf then rel
          else (case findTargetFilePath tf (ar_files ar) of
                  None \<Rightarrow> rel
                | Some targetFilePath \<Rightarrow>
                    if truthy targetFilePath then set_add (''file:'' @ targetFilePath) rel
                    else rel))"

definition seedRelatedFiles ::
  "GraphData \<Rightarrow> AnalysisResult \<Rightarrow> string list option \<Rightarrow> string list \<Rightarrow> string list" where
  "seedRelatedFiles g ar relatedFiles rel =
     (case relatedFiles of
        None \<Rightarrow> rel
      | Some fs \<Rightarrow>
          fold (\<lambda>file r.
                  case findTargetFilePath file (ar_files ar) of
                    None \<Rightarrow> r
                  | Some filePath \<Rightarrow>
                      if \<not> truthy filePath then r
                      else fold (\<lambda>node r'. if n_filePath node = filePath
                                            then set_add (n_id node) r' else r')
                             (nodes g) (set_add (''file:'' @ filePath) r))
               fs rel)"

definition hintFile :: "RelatedHint \<Rightarrow> string option" where
  "hintFile h = (case h_filePath h of None \<Rightarrow> None | Some p \<Rightarrow> if truthy p then Some p else None)"

definition seedRelatedFunctions ::
  "GraphData \<Rightarrow> AnalysisResult \<Rightarrow> RelatedHint list option \<Rightarrow> string list \<Rightarrow> string list" where
  "seedRelatedFunctions g ar relatedFunctions rel =
     (case relatedFunctions of
        None \<Rightarrow> rel
      | Some hs \<Rightarrow>
          fold (\<lambda>func r.
                  case hintFile func of
                    Some hinted \<Rightarrow>
                      (case findTargetFilePath hinted (ar_files ar) of
                         None \<Rightarrow> r
                       | Some filePath \<Rightarrow>
                           if \<not> truthy filePath then r
                           else (let funcNodeId = ''function:'' @ filePath @ '':'' @ h_name func;
                                     fileNodeId = ''file:'' @ filePath
                                 in case findNode g funcNodeId of
                                      None \<Rightarrow> r
                                    | Some funcNode \<Rightarrow> set_add fileNodeId (set_add funcNodeId r)))
                  | None \<Rightarrow>
                      fold (\<lambda>analysisFunc r'.
                              if fn_name analysisFunc = h_name func
                              then set_add (''file:'' @ fn_filePath analysisFunc)
                                     (set_add (''function:'' @ fn_filePath analysisFunc @ '':''
                                                 @ fn_name analysisFunc) r')
                              else r')
                           (ar_functions ar) r)
               hs rel)"

definition seedMethods :: "string \<Rightarrow> MethodInfo list \<Rightarrow> string list \<Rightarrow> string list" where
  "seedMethods className methods rel =
     fold (\<lambda>method r. set_add (''method:'' @ m_filePath method @ '':'' @ className @ ''.''
                                  @ m_name method) r)
          methods rel"

definition seedRelatedClasses ::
  "GraphData \<Rightarrow> AnalysisResult \<Rightarrow> RelatedHint list option \<Rightarrow> string list \<Rightarrow> string list" where
  "seedRelatedClasses g ar relatedClasses rel =
     (case relatedClasses of
        None \<Rightarrow> rel
      | Some hs \<Rightarrow>
          fold (\<lambda>cls r.
                  case hintFile cls of
                    Some hinted \<Rightarrow>
                      (case findTargetFilePath hinted (ar_files ar) of
                         None \<Rightarrow> r
                       | Some filePath \<Rightarrow>
                           if \<not> truthy filePath then r
                           else (let classNodeId = ''class:'' @ filePath @ '':'' @ h_name cls
                                 in if hasNode g classNodeId
                                    then fold (\<lambda>analysisClass r'.
                                                 if cls_filePath analysisClass = filePath
                                                    \<and> cls_name analysisClass = h_name cls
                                                 then seedMethods (h_name cls)
                                                        (cls_methods analysisClass) r'
                                                 else r')
                                           (ar_classes ar)
                                           (set_add (''file:'' @ filePath) (set_add classNodeId r))
                                    else r))
                  | None \<Rightarrow>
                      fold (\<lambda>analysisClass r'.
                              if cls_name analysisClass = h_name cls
                              then seedMethods (h_name cls) (cls_methods analysisClass)
                                     (set_add (''file:'' @ cls_filePath analysisClass)
                                        (set_add (''class:'' @ cls_filePath analysisClass @ '':''
                                                    @ cls_name analysisClass) r'))
                              else r')
                           (ar_classes ar) r)
               hs rel)"

definition seeds ::
  "GraphData \<Rightarrow> AnalysisResult \<Rightarrow> string option \<Rightarrow> string list option \<Rightarrow>
   RelatedHint list option \<Rightarrow> RelatedHint list option \<Rightarrow> string list option \<Rightarrow> string list" where
  "seeds g ar targetFile relatedFiles relatedFunctions relatedClasses focusNodes =
     seedRelatedClasses g ar relatedClasses
       (seedRelatedFunctions g ar relatedFunctions
          (seedRelatedFiles g ar relatedFiles
             (seedTargetFile ar targetFile
                (seedFocusNodes g focusNodes []))))"

subsection \<open>Expansion\<close>

definition visitNeighbour ::
  "GraphData \<Rightarrow> string list \<Rightarrow> string \<Rightarrow> string list \<times> string list \<Rightarrow> string list \<times> string list" where
  "visitNeighbour g processedNodes other acc =
     (case acc of
        (nodesToProcess, rel) \<Rightarrow>
          if other \<in> set processedNodes then (nodesToProcess, rel)
          else (let tp1 = set_add other nodesToProcess
                in (case findNode g other of
                      None \<Rightarrow> tp1
                    | Some node \<Rightarrow>
                        if ''file:'' @ n_filePath node \<in> set processedNodes then tp1
                        else set_add (''file:'' @ n_filePath node) tp1,
                    set_add other rel)))"

definition visitEdge ::
  "GraphData \<Rightarrow> string \<Rightarrow> string list \<Rightarrow> GraphEdge \<Rightarrow> string list \<times> string list
   \<Rightarrow> string list \<times> string list" where
  "visitEdge g currentNodeId processedNodes edge acc =
     (let acc1 = (if e_source edge = currentNodeId
                  then visitNeighbour g processedNodes (e_target edge) acc else acc)
      in if e_target edge = currentNodeId
         then visitNeighbour g processedNodes (e_source edge) acc1 else acc1)"

definition visitNode ::
  "GraphData \<Rightarrow> string \<Rightarrow> string list \<Rightarrow> string list \<times> string list
   \<Rightarrow> string list \<times> string list" where
  "visitNode g currentNodeId processedNodes acc =
     (case fold (visitEdge g currentNodeId processedNodes) (edges g) acc of
        (nodesToProcess, rel) \<Rightarrow>
          (case findNode g currentNodeId of
             None \<Rightarrow> (nodesToProcess, rel)
           | Some currentNode \<Rightarrow>
               (case n_parentId currentNode of
                  None \<Rightarrow> (nodesToProcess, rel)
                | Some parentId \<Rightarrow>
                    if truthy parentId \<and> parentId \<notin> set processedNodes
                    then (set_add parentId nodesToProcess, rel)
                    else (nodesToProcess, rel))))"

definition graphIds :: "GraphData \<Rightarrow> string set" where
  "graphIds g =
     e_source ` set (edges g) \<union> e_target ` set (edges g)
     \<union> (\<lambda>n. ''file:'' @ n_filePath n) ` set (nodes g)
     \<union> {p. \<exists>n \<in> set (nodes g). n_parentId n = Some p}"

lemma finite_graphIds: "finite (graphIds g)"
proof -
  have "{p. \<exists>n \<in> set (nodes g). n_parentId n = Some p} \<subseteq> the ` n_parentId ` set (nodes g)"
    by force
  then have "finite {p. \<exists>n \<in> set (nodes g). n_parentId n = Some p}"
    by (rule finite_subset) simp
  then show ?thesis by (simp add: graphIds_def)
qed

lemma set_set_add: "set (set_add x xs) = insert x (set xs)"
  by (auto simp: set_add_def)

lemma findNode_Some_mem: "findNode g i = Some n \<Longrightarrow> n \<in> set (nodes g) \<and> n_id n = i"
  by (auto simp: findNode_def find_Some_iff)

lemma visitNeighbour_todo:
  "other \<in> graphIds g \<Longrightarrow>
   set (fst (visitNeighbour g pr other (tp, rel))) \<subseteq> set tp \<union> graphIds g"
  by (auto simp: visitNeighbour_def Let_def set_set_add graphIds_def split: option.splits
           dest!: findNode_Some_mem)

lemma visitEdge_todo:
  "e \<in> set (edges g) \<Longrightarrow>
   set (fst (visitEdge g cur pr e acc)) \<subseteq> set (fst acc) \<union> graphIds g"
proof -
  assume e: "e \<in> set (edges g)"
  then have s: "e_source e \<in> graphIds g" and t: "e_target e \<in> graphIds g"
    by (auto simp: graphIds_def)
  obtain tp rel where acc: "acc = (tp, rel)" by (cases acc)
  obtain tp1 rel1 where v1: "visitNeighbour g pr (e_target e) (tp, rel) = (tp1, rel1)"
    by (cases "visitNeighbour g pr (e_target e) (tp, rel)")
  have a: "set tp1 \<subseteq> set tp \<union> graphIds g"
    using visitNeighbour_todo[OF t, of pr tp rel] v1 by simp
  have b: "set (fst (visitNeighbour g pr (e_source e) (tp1, rel1))) \<subseteq> set tp1 \<union> graphIds g"
    by (rule visitNeighbour_todo[OF s])
  have c: "set (fst (visitNeighbour g pr (e_source e) (tp, rel))) \<subseteq> set tp \<union> graphIds g"
    by (rule visitNeighbour_todo[OF s])
  show ?thesis
    using a b c v1 acc by (auto simp: visitEdge_def Let_def)
qed

lemma fold_visitEdge_todo:
  "set es \<subseteq> set (edges g) \<Longrightarrow>
   set (fst (fold (visitEdge g cur pr) es acc)) \<subseteq> set (fst acc) \<union> graphIds g"
proof (induction es arbitrary: acc)
  case Nil
  then show ?case by simp
next
  case (Cons e es)
  have "set (fst (visitEdge g cur pr e acc)) \<subseteq> set (fst acc) \<union> graphIds g"
    using Cons.prems by (intro visitEdge_todo) simp
  moreover have "set (fst (fold (visitEdge g cur pr) es (visitEdge g cur pr e acc)))
        \<subseteq> set (fst (visitEdge g cur pr e acc)) \<union> graphIds g"
    using Cons.prems by (intro Cons.IH) simp
  ultimately show ?case by auto
qed

lemma visitNode_todo:
  "set (fst (visitNode g cur pr acc)) \<subseteq> set (fst acc) \<union> graphIds g"
proof -
  obtain tp rel where f: "fold (visitEdge g cur pr) (edges g) acc = (tp, rel)"
    by (cases "fold (visitEdge g cur pr) (edges g) acc")
  have a: "set tp \<subseteq> set (fst acc) \<union> graphIds g"
    using fold_visitEdge_todo[of "edges g" g cur pr acc] f by simp
  have "\<And>n p. findNode g cur = Some n \<Longrightarrow> n_parentId n = Some p \<Longrightarrow> p \<in> graphIds g"
    by (auto simp: graphIds_def dest!: findNode_Some_mem)
  then show ?thesis
    using a f by (auto simp: visitNode_def set_set_add split: option.splits)
qed

function bfs :: "GraphData \<Rightarrow> string list \<Rightarrow> string list \<Rightarrow> string list \<Rightarrow> string list" where
  "bfs g [] processedNodes rel = rel"
| "bfs g (currentNodeId # rest) processedNodes rel =
     (if currentNodeId \<in> set processedNodes then bfs g rest processedNodes rel
      else (case visitNode g currentNodeId (processedNodes @ [currentNodeId])
                   (rest, set_add currentNodeId rel) of
              (nodesToProcess, rel') \<Rightarrow>
                bfs g nodesToProcess (processedNodes @ [currentNodeId]) rel'))"
  by pat_completeness auto
termination
proof (relation "measures [\<lambda>(g, tp, pr, rel). card ((graphIds g \<union> set tp) - set pr),
                           \<lambda>(g, tp, pr, rel). length tp]", goal_cases)
  case 1
  then show ?case by simp
next
  case (2 g cur rest pr rel)
  have "(graphIds g \<union> set rest) - set pr \<subseteq> (graphIds g \<union> set (cur # rest)) - set pr"
    by auto
  then have "card ((graphIds g \<union> set rest) - set pr) \<le> card ((graphIds g \<union> set (cur # rest)) - set pr)"
    by (intro card_mono) (auto simp: finite_graphIds)
  then show ?case by auto
next
  case (3 g cur rest pr rel tp rel')
  have sub: "set tp \<subseteq> set rest \<union> graphIds g"
    using visitNode_todo[of g cur "pr @ [cur]" "(rest, set_add cur rel)"] 3(2)[symmetric] by simp
  have "(graphIds g \<union> set tp) - set (pr @ [cur]) \<subset> (graphIds g \<union> set (cur # rest)) - set pr"
    using sub 3(1) by auto
  then have "card ((graphIds g \<union> set tp) - set (pr @ [cur])) < card ((graphIds g \<union> set (cur # rest)) - set pr)"
    by (intro psubset_card_mono) (auto simp: finite_graphIds)
  then show ?case by simp
qed

subsection \<open>File closure and the final filter\<close>

definition fileClosure :: "GraphData \<Rightarrow> string list \<Rightarrow> string list" where
  "fileClosure g rel =
     fold (\<lambda>nodeId r.
             case findNode g nodeId of
               None \<Rightarrow> r
             | Some node \<Rightarrow>
                 if n_type node = File
                 then fold (\<lambda>childNode r'.
                              if n_filePath childNode = n_filePath node \<and> n_id childNode \<noteq> nodeId
                              then set_add (n_id childNode) r' else r')
                        (nodes g) r
                 else r)
          rel rel"

definition relatedNodeIds ::
  "GraphData \<Rightarrow> AnalysisResult \<Rightarrow> string option \<Rightarrow> string list option \<Rightarrow>
   RelatedHint list option \<Rightarrow> RelatedHint list option \<Rightarrow> string list option \<Rightarrow> string list" where
  "relatedNodeIds g ar targetFile relatedFiles relatedFunctions relatedClasses focusNodes =
     (let rel = seeds g ar targetFile relatedFiles relatedFunctions relatedClasses focusNodes
      in if length rel > 0 then fileClosure g (bfs g rel [] rel) else rel)"

definition filterGraphByLLMContext ::
  "GraphData \<Rightarrow> AnalysisResult \<Rightarrow> string option \<Rightarrow> string list option \<Rightarrow>
   RelatedHint list option \<Rightarrow> RelatedHint list option \<Rightarrow> string list option \<Rightarrow> GraphData" where
  "filterGraphByLLMContext g ar targetFile relatedFiles relatedFunctions relatedClasses focusNodes =
     (let rel = relatedNodeIds g ar targetFile relatedFiles relatedFunctions relatedClasses
                  focusNodes
      in \<lparr>nodes = filter (\<lambda>n. n_id n \<in> set rel) (nodes g),
          edges = filter (\<lambda>e. e_source e \<in> set rel \<and> e_target e \<in> set rel) (edges g)\<rparr>)"

section \<open>extractGraphData\<close>

text \<open>
  The guard before the filter is JavaScript truthiness: a string is truthy unless empty,
  an array always, \<open>undefined\<close> never.
\<close>

definition hintGiven ::
  "string option \<Rightarrow> string list option \<Rightarrow> RelatedHint list option \<Rightarrow> RelatedHint list option
   \<Rightarrow> string list option \<Rightarrow> bool" where
  "hintGiven targetFile relatedFiles relatedFunctions relatedClasses focusNodes =
     ((case targetFile of None \<Rightarrow> False | Some tf \<Rightarrow> truthy tf)
      \<or> relatedFiles \<noteq> None \<or> relatedFunctions \<noteq> None \<or> relatedClasses \<noteq> None
      \<or> focusNodes \<noteq> None)"

definition extractGraphData ::
  "ExtractorState \<Rightarrow> TypeScriptAnalyzer \<Rightarrow> AnalysisResult \<Rightarrow> string option \<Rightarrow>
   string list option \<Rightarrow> RelatedHint list option \<Rightarrow> RelatedHint list option \<Rightarrow>
   string list option \<Rightarrow> ExtractorState \<times> GraphData" where
  "extractGraphData s analyzer ar targetFile relatedFiles relatedFunctions relatedClasses focusNodes =
     (let s' = buildGraph s analyzer ar;
          result = graphOf s'
      in (s', if hintGiven targetFile relatedFiles relatedFunctions relatedClasses focusNodes
              then filterGraphByLLMContext result ar targetFile relatedFiles relatedFunctions
                     relatedClasses focusNodes
              else result))"

section \<open>Direct graph ingestion (createGraphFromLLMSpec)\<close>

record SpecNode =
  sn_id :: string
  sn_label :: string
  sn_type :: string
  sn_filePath :: "string option"
  sn_line :: "int option"
  sn_column :: "int option"

record SpecEdge =
  se_source :: string
  se_target :: string
  se_type :: string
  se_label :: "string option"

definition nodeTypeOfTag :: "string \<Rightarrow> NodeType" where
  "nodeTypeOfTag t =
     (if t = ''file'' then File
      else if t = ''function'' then Function
      else if t = ''class'' then Class
      else if t = ''method'' then Method
      else if t = ''interface'' then Interface
      else if t = ''type'' then Type
      else if t = ''variable'' then Variable
      else File)"

definition edgeTypeOfTag :: "string \<Rightarrow> EdgeType" where
  "edgeTypeOfTag t =
     (if t = ''import'' then Import
      else if t = ''export'' then Export
      else if t = ''call'' then Call
      else if t = ''extends'' then Extends
      else if t = ''implements'' then Implements
      else if t = ''reference'' then Reference
      else Reference)"

text \<open>\<open>id.replace(/^(file|function|class|method):/, '').split(':')[0]\<close>\<close>

definition stripKindPrefix :: "string \<Rightarrow> string" where
  "stripKindPrefix i =
     (if startsWith i ''file:'' then drop 5 i
      else if startsWith i ''function:'' then drop 9 i
      else if startsWith i ''class:'' then drop 6 i
      else if startsWith i ''method:'' then drop 7 i
      else i)"

definition specNodeFilePath :: "SpecNode \<Rightarrow> string" where
  "specNodeFilePath n =
     (case sn_filePath n of
        Some p \<Rightarrow> if truthy p then p
                  else takeWhile (\<lambda>c. c \<noteq> CHR '':'') (stripKindPrefix (sn_id n))
      | None \<Rightarrow> takeWhile (\<lambda>c. c \<noteq> CHR '':'') (stripKindPrefix (sn_id n)))"

definition specGraphNode :: "SpecNode \<Rightarrow> GraphNode" where
  "specGraphNode n =
     \<lparr>n_id = sn_id n, n_label = sn_label n, n_type = nodeTypeOfTag (sn_type n),
      n_filePath = specNodeFilePath n, n_line = sn_line n, n_column = sn_column n,
      n_parentId = None, n_metadata = EmptyMetadata\<rparr>"

text \<open>The decimal digits of an array index, as a template literal prints it.\<close>

fun digitsOf :: "nat \<Rightarrow> string" where
  "digitsOf n =
     (if n < 10 then [''0123456789'' ! n]
      else digitsOf (n div 10) @ [''0123456789'' ! (n mod 10)])"

definition specGraphEdge :: "nat \<Rightarrow> SpecEdge \<Rightarrow> GraphEdge" where
  "specGraphEdge index e =
     \<lparr>e_id = ''edge-'' @ digitsOf index, e_source = se_source e, e_target = se_target e,
      e_type = edgeTypeOfTag (se_type e),
      e_label = Some (case se_label e of
                        None \<Rightarrow> ''contains''
                      | Some l \<Rightarrow> if truthy l then l else ''contains''),
      e_metadata = EmptyMetadata\<rparr>"

text \<open>\<open>Array.prototype.join\<close>: the elements with the separator between them.\<close>

fun array_join :: "string \<Rightarrow> string list \<Rightarrow> string" where
  "array_join sep [] = []"
| "array_join sep [x] = x"
| "array_join sep (x # y # ys) = x @ sep @ array_join sep (y # ys)"

text \<open>The second line of each warning: the ids of the first five nodes.\<close>

definition availableNodeIds :: "GraphNode list \<Rightarrow> string" where
  "availableNodeIds graphNodes =
     ''[LLM-CodeMap] Available node IDs: '' @ array_join '', '' (map n_id (take 5 graphNodes))
       @ ''...''"

text \<open>
  The diagnostics of one edge: the two \<open>console.warn\<close> lines printed when the source id
  is not among the nodes, then the two printed when the target id is not.
\<close>

definition edgeWarnings :: "GraphNode list \<Rightarrow> nat \<Rightarrow> SpecEdge \<Rightarrow> string list" where
  "edgeWarnings graphNodes index e =
     (if list_ex (\<lambda>n. n_id n = se_source e) graphNodes then []
      else [''[LLM-CodeMap] Edge '' @ digitsOf index @ '': Source node not found: ''
              @ se_source e,
            availableNodeIds graphNodes])
     @ (if list_ex (\<lambda>n. n_id n = se_target e) graphNodes then []
        else [''[LLM-CodeMap] Edge '' @ digitsOf index @ '': Target node not found: ''
                @ se_target e,
              availableNodeIds graphNodes])"

text \<open>The returned graph, and the warnings written to the console on the way.\<close>

definition createGraphFromLLMSpec :: "SpecNode list \<Rightarrow> SpecEdge list \<Rightarrow> GraphData \<times> string list" where
  "createGraphFromLLMSpec ns es =
     (let graphNodes = map specGraphNode ns;
          indexed = zip [0 ..< length es] es
      in (\<lparr>nodes = graphNodes, edges = map (\<lambda>(index, e). specGraphEdge index e) indexed\<rparr>,
          concat (map (\<lambda>(index, e). edgeWarnings graphNodes index e) indexed)))"

section \<open>Invariants of the build pass\<close>

definition nodeIds :: "ExtractorState \<Rightarrow> string set" where
  "nodeIds s = fst ` set (nodeMap s)"

text \<open>
  Node and edge maps have one entry per key and store every node and edge under its own
  id; the file index lists only stored nodes, each under its own file path; both ends of
  every edge are stored nodes.
\<close>

definition stateInv :: "ExtractorState \<Rightarrow> bool" where
  "stateInv s =
     (distinct (map fst (nodeMap s)) \<and> distinct (map fst (edgeMap s))
      \<and> (\<forall>k n. map_of (nodeMap s) k = Some n \<longrightarrow> n_id n = k)
      \<and> (\<forall>fp ids i. map_of (fileToNodes s) fp = Some ids \<longrightarrow> i \<in> set ids \<longrightarrow>
             (\<exists>n. map_of (nodeMap s) i = Some n \<and> n_filePath n = fp))
      \<and> (\<forall>k e. map_of (edgeMap s) k = Some e \<longrightarrow>
             e_id e = k \<and> e_source e \<in> nodeIds s \<and> e_target e \<in> nodeIds s))"

lemma map_has_iff: "map_has m k = (k \<in> fst ` set m)"
  by (simp add: map_has_def map_of_eq_None_iff)

lemma map_has_nodeIds: "map_has (nodeMap s) k = (k \<in> nodeIds s)"
  by (simp add: map_has_iff nodeIds_def)

lemma map_of_Some_nodeIds: "map_of (nodeMap s) k = Some n \<Longrightarrow> k \<in> nodeIds s"
  unfolding nodeIds_def by (metis map_has_def map_has_iff option.distinct(1))

lemma inv_cleared: "stateInv (clearState s)"
  by (simp add: stateInv_def clearState_def nodeIds_def)

text \<open>Storing a new node under its id.\<close>

definition putNode :: "GraphNode \<Rightarrow> ExtractorState \<Rightarrow> ExtractorState" where
  "putNode n s = s\<lparr>nodeMap := AList.update (n_id n) n (nodeMap s)\<rparr>"

lemma nodeIds_putNode: "nodeIds (putNode n s) = insert (n_id n) (nodeIds s)"
  by (simp add: putNode_def nodeIds_def dom_update)

lemma map_of_putNode: "map_of (nodeMap (putNode n s)) = (map_of (nodeMap s))(n_id n \<mapsto> n)"
  by (simp add: putNode_def update_conv')

lemma putNode_other [simp]:
  "edgeMap (putNode n s) = edgeMap s" "fileToNodes (putNode n s) = fileToNodes s"
  by (simp_all add: putNode_def)

lemma inv_putNode:
  assumes "stateInv s" "n_id n \<notin> nodeIds s"
  shows "stateInv (putNode n s)"
proof -
  have new: "map_of (nodeMap s) (n_id n) = None"
    using assms(2) by (simp add: nodeIds_def map_of_eq_None_iff)
  have "distinct (map fst (nodeMap (putNode n s)))"
    using assms(1) by (simp add: stateInv_def putNode_def distinct_update)
  moreover have "\<forall>fp ids i. map_of (fileToNodes s) fp = Some ids \<longrightarrow> i \<in> set ids \<longrightarrow>
             (\<exists>m. map_of (nodeMap (putNode n s)) i = Some m \<and> n_filePath m = fp)"
    using assms(1) new unfolding stateInv_def map_of_putNode by (metis fun_upd_apply option.distinct(1))
  ultimately show ?thesis
    using assms(1) unfolding stateInv_def
    by (auto simp: map_of_putNode nodeIds_putNode)
qed

lemma pushFileNode_other [simp]:
  "nodeMap (pushFileNode fp i s) = nodeMap s" "edgeMap (pushFileNode fp i s) = edgeMap s"
  by (simp_all add: pushFileNode_def split: option.splits)

lemma nodeIds_pushFileNode [simp]: "nodeIds (pushFileNode fp i s) = nodeIds s"
  by (simp add: nodeIds_def)

lemma map_of_pushFileNode:
  "map_of (fileToNodes (pushFileNode fp i s)) =
     (map_of (fileToNodes s))(fp \<mapsto> fileNodesOf s fp @ [i])"
  by (auto simp: pushFileNode_def fileNodesOf_def update_conv' split: option.splits)

lemma fileNodesOf_mem:
  assumes "stateInv s" "j \<in> set (fileNodesOf s fp)"
  shows "\<exists>m. map_of (nodeMap s) j = Some m \<and> n_filePath m = fp"
proof (cases "map_of (fileToNodes s) fp")
  case None
  then show ?thesis using assms(2) by (simp add: fileNodesOf_def)
next
  case (Some ids)
  then have "j \<in> set ids" using assms(2) by (simp add: fileNodesOf_def)
  then show ?thesis using assms(1) Some unfolding stateInv_def by blast
qed

lemma inv_pushFileNode:
  assumes "stateInv s" "map_of (nodeMap s) i = Some n" "n_filePath n = fp"
  shows "stateInv (pushFileNode fp i s)"
proof -
  have "\<forall>fp' ids j. map_of (fileToNodes (pushFileNode fp i s)) fp' = Some ids \<longrightarrow> j \<in> set ids \<longrightarrow>
             (\<exists>m. map_of (nodeMap s) j = Some m \<and> n_filePath m = fp')"
  proof (intro allI impI)
    fix fp' ids j
    assume l: "map_of (fileToNodes (pushFileNode fp i s)) fp' = Some ids" and j: "j \<in> set ids"
    show "\<exists>m. map_of (nodeMap s) j = Some m \<and> n_filePath m = fp'"
    proof (cases "fp' = fp")
      case True
      then have "ids = fileNodesOf s fp @ [i]" using l by (simp add: map_of_pushFileNode)
      then have "j = i \<or> j \<in> set (fileNodesOf s fp)" using j by auto
      then show ?thesis
        using assms(2,3) True fileNodesOf_mem[OF assms(1), of j fp] by blast
    next
      case False
      then have "map_of (fileToNodes s) fp' = Some ids" using l by (simp add: map_of_pushFileNode)
      then show ?thesis using assms(1) j unfolding stateInv_def by blast
    qed
  qed
  then show ?thesis using assms(1) unfolding stateInv_def by simp
qed

lemma createFileNode_eq:
  "createFileNode fp s =
     (if ''file:'' @ fp \<in> nodeIds s then s
      else pushFileNode fp (''file:'' @ fp)
             (putNode \<lparr>n_id = ''file:'' @ fp, n_label = path_basename fp, n_type = File,
                       n_filePath = fp, n_line = None, n_column = None, n_parentId = None,
                       n_metadata = FileMetadata fp\<rparr> s))"
  by (simp add: createFileNode_def Let_def map_has_nodeIds putNode_def)

lemma createFunctionNode_eq:
  "createFunctionNode func s =
     (if ''function:'' @ fn_filePath func @ '':'' @ fn_name func \<in> nodeIds s then s
      else pushFileNode (fn_filePath func) (''function:'' @ fn_filePath func @ '':'' @ fn_name func)
             (putNode \<lparr>n_id = ''function:'' @ fn_filePath func @ '':'' @ fn_name func,
                       n_label = fn_name func, n_type = Function, n_filePath = fn_filePath func,
                       n_line = Some (fn_line func), n_column = Some (fn_column func),
                       n_parentId = Some (''file:'' @ fn_filePath func),
                       n_metadata = FunctionMetadata (fn_isExported func) (fn_isAsync func)
                                      (fn_parameters func) (fn_returnType func)\<rparr> s))"
  by (simp add: createFunctionNode_def Let_def map_has_nodeIds putNode_def)

lemma createClassNode_eq:
  "createClassNode cls s =
     (if ''class:'' @ cls_filePath cls @ '':'' @ cls_name cls \<in> nodeIds s then s
      else pushFileNode (cls_filePath cls) (''class:'' @ cls_filePath cls @ '':'' @ cls_name cls)
             (putNode \<lparr>n_id = ''class:'' @ cls_filePath cls @ '':'' @ cls_name cls,
                       n_label = cls_name cls, n_type = Class, n_filePath = cls_filePath cls,
                       n_line = Some (cls_line cls), n_column = Some (cls_column cls),
                       n_parentId = Some (''file:'' @ cls_filePath cls),
                       n_metadata = ClassMetadata (cls_isExported cls) (cls_extends cls)
                                      (cls_implements cls)\<rparr> s))"
  by (simp add: createClassNode_def Let_def map_has_nodeIds putNode_def)

lemma createMethodNode_eq:
  "createMethodNode method cls s =
     (if ''method:'' @ m_filePath method @ '':'' @ cls_name cls @ ''.'' @ m_name method \<in> nodeIds s
      then s
      else putNode \<lparr>n_id = ''method:'' @ m_filePath method @ '':'' @ cls_name cls @ ''.''
                              @ m_name method,
                     n_label = cls_name cls @ ''.'' @ m_name method, n_type = Method,
                     n_filePath = m_filePath method,
                     n_line = Some (m_line method), n_column = Some (m_column method),
                     n_parentId = Some (''class:'' @ m_filePath method @ '':'' @ cls_name cls),
                     n_metadata = MethodMetadata (m_isPublic method) (m_isStatic method)
                                    (m_isAsync method) (m_parameters method)
                                    (m_returnType method)\<rparr> s)"
  by (simp add: createMethodNode_def Let_def map_has_nodeIds putNode_def)

lemma inv_put_push:
  assumes "stateInv s" "n_id n \<notin> nodeIds s" "n_filePath n = fp"
  shows "stateInv (pushFileNode fp (n_id n) (putNode n s))"
  using inv_pushFileNode[OF inv_putNode[OF assms(1,2)], of "n_id n" n fp] assms(3)
  by (simp add: map_of_putNode)

lemma inv_createFileNode: "stateInv s \<Longrightarrow> stateInv (createFileNode fp s)"
  unfolding createFileNode_eq
  by (auto intro!: inv_put_push[where n = "\<lparr>n_id = ''file:'' @ fp, n_label = path_basename fp,
        n_type = File, n_filePath = fp, n_line = None, n_column = None, n_parentId = None,
        n_metadata = FileMetadata fp\<rparr>", simplified])

lemma inv_createFunctionNode: "stateInv s \<Longrightarrow> stateInv (createFunctionNode func s)"
  unfolding createFunctionNode_eq
  using inv_put_push[where s = s and fp = "fn_filePath func" and
      n = "\<lparr>n_id = ''function:'' @ fn_filePath func @ '':'' @ fn_name func,
                       n_label = fn_name func, n_type = Function, n_filePath = fn_filePath func,
                       n_line = Some (fn_line func), n_column = Some (fn_column func),
                       n_parentId = Some (''file:'' @ fn_filePath func),
                       n_metadata = FunctionMetadata (fn_isExported func) (fn_isAsync func)
                                      (fn_parameters func) (fn_returnType func)\<rparr>"]
  by simp

lemma inv_createClassNode: "stateInv s \<Longrightarrow> stateInv (createClassNode cls s)"
  unfolding createClassNode_eq
  using inv_put_push[where s = s and fp = "cls_filePath cls" and
      n = "\<lparr>n_id = ''class:'' @ cls_filePath cls @ '':'' @ cls_name cls,
                       n_label = cls_name cls, n_type = Class, n_filePath = cls_filePath cls,
                       n_line = Some (cls_line cls), n_column = Some (cls_column cls),
                       n_parentId = Some (''file:'' @ cls_filePath cls),
                       n_metadata = ClassMetadata (cls_isExported cls) (cls_extends cls)
                                      (cls_implements cls)\<rparr>"]
  by simp

lemma inv_createMethodNode: "stateInv s \<Longrightarrow> stateInv (createMethodNode method cls s)"
  unfolding createMethodNode_eq
  by (auto intro!: inv_putNode)

subsection \<open>Edges are only added between stored nodes\<close>

lemma fold_pres:
  assumes "\<And>x s. x \<in> set xs \<Longrightarrow> P s \<Longrightarrow> P (f x s)" "P s"
  shows "P (fold f xs s)"
  using assms by (induction xs arbitrary: s) auto

lemma addEdge_other [simp]:
  "nodeMap (addEdge e s) = nodeMap s" "fileToNodes (addEdge e s) = fileToNodes s"
  by (simp_all add: addEdge_def)

lemma nodeIds_addEdge [simp]: "nodeIds (addEdge e s) = nodeIds s"
  by (simp add: nodeIds_def)

lemma inv_addEdge:
  assumes "stateInv s" "e_source e \<in> nodeIds s" "e_target e \<in> nodeIds s"
  shows "stateInv (addEdge e s)"
proof (cases "map_has (edgeMap s) (e_id e)")
  case True
  then show ?thesis using assms(1) by (simp add: addEdge_def)
next
  case False
  define s' where "s' = s\<lparr>edgeMap := AList.update (e_id e) e (edgeMap s)\<rparr>"
  have eq: "addEdge e s = s'" using False by (simp add: addEdge_def s'_def)
  have n: "nodeMap s' = nodeMap s" and f: "fileToNodes s' = fileToNodes s"
    and ids: "nodeIds s' = nodeIds s"
    by (simp_all add: s'_def nodeIds_def)
  have d: "distinct (map fst (edgeMap s'))"
    using assms(1) by (simp add: stateInv_def s'_def distinct_update)
  have e: "e_id e' = k \<and> e_source e' \<in> nodeIds s \<and> e_target e' \<in> nodeIds s"
    if "map_of (edgeMap s') k = Some e'" for k e'
  proof (cases "k = e_id e")
    case True
    then have "e' = e" using that by (simp add: s'_def update_conv')
    then show ?thesis using True assms(2,3) by simp
  next
    case False
    then have "map_of (edgeMap s) k = Some e'" using that by (simp add: s'_def update_conv')
    then show ?thesis using assms(1) unfolding stateInv_def by blast
  qed
  have "stateInv s'"
    unfolding stateInv_def n f ids
    using assms(1) d e unfolding stateInv_def by blast
  then show ?thesis by (simp add: eq)
qed

lemma nodeIds_createFileNode: "nodeIds s \<subseteq> nodeIds (createFileNode fp s)"
  by (auto simp: createFileNode_eq nodeIds_putNode)

lemma nodeIds_createFunctionNode: "nodeIds s \<subseteq> nodeIds (createFunctionNode func s)"
  by (auto simp: createFunctionNode_eq nodeIds_putNode)

lemma nodeIds_createClassNode: "nodeIds s \<subseteq> nodeIds (createClassNode cls s)"
  by (auto simp: createClassNode_eq nodeIds_putNode)

lemma nodeIds_createMethodNode: "nodeIds s \<subseteq> nodeIds (createMethodNode method cls s)"
  by (auto simp: createMethodNode_eq nodeIds_putNode)

lemma createClassNode_has:
  "''class:'' @ cls_filePath cls @ '':'' @ cls_name cls \<in> nodeIds (createClassNode cls s)"
  by (auto simp: createClassNode_eq nodeIds_putNode)

lemma fileNodesOf_nodeIds: "stateInv s \<Longrightarrow> set (fileNodesOf s fp) \<subseteq> nodeIds s"
  using fileNodesOf_mem map_of_Some_nodeIds by blast


lemma importSourceNodes_props:
  assumes "stateInv s" "importSourceNodes importInfo s = (s', src)"
  shows "stateInv s' \<and> nodeIds s \<subseteq> nodeIds s' \<and> set src \<subseteq> nodeIds s'"
proof (cases "length (fileNodesOf s (imp_from importInfo)) = 0
              \<and> \<not> map_has (nodeMap s) (''file:'' @ imp_from importInfo)")
  case True
  then have s': "s' = createFileNode (imp_from importInfo) s"
    and src: "src = fileNodesOf s (imp_from importInfo) @ fileNodesOf s' (imp_from importInfo)"
    using assms(2) by (auto simp: importSourceNodes_def Let_def)
  have i: "stateInv s'" using assms(1) s' by (simp add: inv_createFileNode)
  have "set src \<subseteq> nodeIds s'"
    using True src fileNodesOf_nodeIds[OF i] by auto
  then show ?thesis using i s' nodeIds_createFileNode by simp
next
  case False
  then have "s' = s" "src = fileNodesOf s (imp_from importInfo)"
    using assms(2) by (auto simp: importSourceNodes_def Let_def split: if_splits)
  then show ?thesis using assms(1) fileNodesOf_nodeIds by simp
qed

lemma importTarget_step_pres:
  assumes "stateInv s" "sourceNodeId \<in> nodeIds s"
  shows "stateInv (importTarget_step importInfo importName sourceNodeId targetNodeId s)
         \<and> nodeIds (importTarget_step importInfo importName sourceNodeId targetNodeId s) = nodeIds s"
proof (cases "map_of (nodeMap s) targetNodeId")
  case None
  then show ?thesis using assms by (simp add: importTarget_step_def)
next
  case (Some targetNode)
  then have "targetNodeId \<in> nodeIds s" by (rule map_of_Some_nodeIds)
  then have "stateInv (addEdge (importEdge importInfo importName sourceNodeId targetNodeId) s)"
    using assms by (intro inv_addEdge) (simp_all add: importEdge_def)
  then show ?thesis using assms Some by (simp add: importTarget_step_def)
qed

lemma importFileEdge_pres:
  assumes "stateInv s"
  shows "stateInv (importFileEdge importInfo importName src targetFile s)
         \<and> nodeIds (importFileEdge importInfo importName src targetFile s) = nodeIds s"
proof (cases src)
  case Nil
  then show ?thesis using assms by (simp add: importFileEdge_def)
next
  case (Cons a rest)
  show ?thesis
  proof (cases "a \<in> nodeIds s \<and> ''file:'' @ targetFile \<in> nodeIds s")
    case True
    then have "stateInv (addEdge (importEdge importInfo importName a (''file:'' @ targetFile)) s)"
      using assms by (intro inv_addEdge) (simp_all add: importEdge_def)
    then show ?thesis using Cons True by (simp add: importFileEdge_def map_has_nodeIds)
  next
    case False
    then show ?thesis using Cons assms by (auto simp: importFileEdge_def map_has_nodeIds)
  qed
qed

lemma ensureTargetFile_pres:
  "stateInv s \<Longrightarrow> stateInv (ensureTargetFile targetFile s) \<and> nodeIds s \<subseteq> nodeIds (ensureTargetFile targetFile s)"
  using nodeIds_createFileNode by (simp add: ensureTargetFile_def inv_createFileNode)

lemma importName_step_pres:
  assumes "stateInv s" "set src \<subseteq> nodeIds s"
  shows "stateInv (importName_step importInfo src importName s)
         \<and> nodeIds s \<subseteq> nodeIds (importName_step importInfo src importName s)"
proof (cases "findFileByExport importName s")
  case None
  then show ?thesis using assms by (simp add: importName_step_def)
next
  case (Some targetFile)
  show ?thesis
  proof (cases "truthy targetFile")
    case False
    then show ?thesis using assms Some by (simp add: importName_step_def)
  next
    case True
    define s1 where "s1 = ensureTargetFile targetFile s"
    define s2 where "s2 = importFileEdge importInfo importName src targetFile s1"
    have i1: "stateInv s1" and n1: "nodeIds s \<subseteq> nodeIds s1"
      using ensureTargetFile_pres[OF assms(1)] by (simp_all add: s1_def)
    have i2: "stateInv s2" and n2: "nodeIds s2 = nodeIds s1"
      using importFileEdge_pres[OF i1] by (simp_all add: s2_def)
    have step: "importName_step importInfo src importName s =
        fold (\<lambda>sourceNodeId.
                fold (importTarget_step importInfo importName sourceNodeId)
                     (fileNodesOf s1 targetFile))
             src s2"
      using Some True by (simp add: importName_step_def Let_def s1_def s2_def)
    have "stateInv (importName_step importInfo src importName s)
          \<and> nodeIds (importName_step importInfo src importName s) = nodeIds s2"
      unfolding step
    proof (rule fold_pres[where P = "\<lambda>st. stateInv st \<and> nodeIds st = nodeIds s2"])
      show "stateInv s2 \<and> nodeIds s2 = nodeIds s2" using i2 by simp
    next
      fix x st assume x: "x \<in> set src" and p: "stateInv st \<and> nodeIds st = nodeIds s2"
      then have xs: "x \<in> nodeIds st" using assms(2) n1 n2 by auto
      have "stateInv (fold (importTarget_step importInfo importName x) (fileNodesOf s1 targetFile) st)
            \<and> nodeIds (fold (importTarget_step importInfo importName x)
                         (fileNodesOf s1 targetFile) st) = nodeIds st"
      proof (rule fold_pres[where P = "\<lambda>u. stateInv u \<and> nodeIds u = nodeIds st"])
        show "stateInv st \<and> nodeIds st = nodeIds st" using p by simp
      next
        fix y u assume q: "stateInv u \<and> nodeIds u = nodeIds st"
        then have "x \<in> nodeIds u" using xs by simp
        from importTarget_step_pres[OF conjunct1[OF q] this, of importInfo importName y]
        show "stateInv (importTarget_step importInfo importName x y u)
              \<and> nodeIds (importTarget_step importInfo importName x y u) = nodeIds st"
          using q by simp
      qed
      then show "stateInv (fold (importTarget_step importInfo importName x)
                        (fileNodesOf s1 targetFile) st)
                 \<and> nodeIds (fold (importTarget_step importInfo importName x)
                              (fileNodesOf s1 targetFile) st) = nodeIds s2"
        using p by simp
    qed
    then show ?thesis using n1 n2 by simp
  qed
qed

lemma createImportEdges_pres:
  assumes "stateInv s"
  shows "stateInv (createImportEdges importInfo s)
         \<and> nodeIds s \<subseteq> nodeIds (createImportEdges importInfo s)"
proof -
  obtain s' src where isn: "importSourceNodes importInfo s = (s', src)"
    by (cases "importSourceNodes importInfo s")
  from importSourceNodes_props[OF assms isn]
  have i: "stateInv s'" and n: "nodeIds s \<subseteq> nodeIds s'" and src: "set src \<subseteq> nodeIds s'"
    by simp_all
  have "stateInv (fold (importName_step importInfo src) (imp_imports importInfo) s')
        \<and> nodeIds s' \<subseteq> nodeIds (fold (importName_step importInfo src) (imp_imports importInfo) s')"
  proof (rule fold_pres[where P = "\<lambda>st. stateInv st \<and> nodeIds s' \<subseteq> nodeIds st"])
    show "stateInv s' \<and> nodeIds s' \<subseteq> nodeIds s'" using i by simp
  next
    fix x st assume p: "stateInv st \<and> nodeIds s' \<subseteq> nodeIds st"
    then have "set src \<subseteq> nodeIds st" using src by auto
    from importName_step_pres[OF conjunct1[OF p] this, of importInfo x]
    show "stateInv (importName_step importInfo src x st)
          \<and> nodeIds s' \<subseteq> nodeIds (importName_step importInfo src x st)"
      using p by auto
  qed
  then show ?thesis using isn i n by (auto simp: createImportEdges_def)
qed

subsection \<open>Call, inheritance and containment edges\<close>

lemma find_Some_set: "find P xs = Some x \<Longrightarrow> x \<in> set xs \<and> P x"
  by (induction xs) (auto split: if_splits)

lemma findCallerNode_mem:
  "findCallerNode node s = Some c \<Longrightarrow> c \<in> set (fileNodesOf s (n_filePath node))"
  using find_Some_set by (fastforce simp: findCallerNode_def)

lemma callTarget_step_frame [simp]:
  "nodeMap (callTarget_step functionName nodeId s) = nodeMap s"
  "fileToNodes (callTarget_step functionName nodeId s) = fileToNodes s"
  by (simp_all add: callTarget_step_def split: option.splits)

lemma inv_callTarget_step:
  assumes "stateInv s"
  shows "stateInv (callTarget_step functionName nodeId s)"
proof (cases "map_of (nodeMap s) nodeId")
  case None
  then show ?thesis using assms by (simp add: callTarget_step_def)
next
  case (Some node)
  then have t: "nodeId \<in> nodeIds s" by (rule map_of_Some_nodeIds)
  show ?thesis
  proof (cases "findCallerNode node s")
    case None
    then show ?thesis using assms Some by (simp add: callTarget_step_def)
  next
    case c: (Some callerNodeId)
    then have "callerNodeId \<in> nodeIds s"
      using findCallerNode_mem fileNodesOf_nodeIds[OF assms] by blast
    then have "stateInv (addEdge (callEdge callerNodeId nodeId) s)"
      using assms t by (intro inv_addEdge) (simp_all add: callEdge_def)
    then show ?thesis using assms Some c by (simp add: callTarget_step_def)
  qed
qed

lemma visitCall_frame [simp]:
  "nodeMap (visitCall filePath callee s) = nodeMap s"
  "fileToNodes (visitCall filePath callee s) = fileToNodes s"
proof -
  have "nodeMap (fold (callTarget_step nm) ids s) = nodeMap s
        \<and> fileToNodes (fold (callTarget_step nm) ids s) = fileToNodes s" for nm ids
    by (rule fold_pres[where P = "\<lambda>st. nodeMap st = nodeMap s \<and> fileToNodes st = fileToNodes s"])
       simp_all
  then show "nodeMap (visitCall filePath callee s) = nodeMap s"
    and "fileToNodes (visitCall filePath callee s) = fileToNodes s"
    by (simp_all add: visitCall_def split: option.splits)
qed

lemma inv_visitCall: "stateInv s \<Longrightarrow> stateInv (visitCall filePath callee s)"
  unfolding visitCall_def
  by (auto split: option.splits intro!: fold_pres[where P = stateInv] inv_callTarget_step)

lemma extractCallEdges_frame [simp]:
  "nodeMap (extractCallEdges sourceFile filePath s) = nodeMap s"
  "fileToNodes (extractCallEdges sourceFile filePath s) = fileToNodes s"
proof -
  have "nodeMap (extractCallEdges sourceFile filePath s) = nodeMap s
        \<and> fileToNodes (extractCallEdges sourceFile filePath s) = fileToNodes s"
    unfolding extractCallEdges_def
    by (rule fold_pres[where P = "\<lambda>st. nodeMap st = nodeMap s \<and> fileToNodes st = fileToNodes s"])
       simp_all
  then show "nodeMap (extractCallEdges sourceFile filePath s) = nodeMap s"
    and "fileToNodes (extractCallEdges sourceFile filePath s) = fileToNodes s"
    by simp_all
qed

lemma inv_extractCallEdges: "stateInv s \<Longrightarrow> stateInv (extractCallEdges sourceFile filePath s)"
  unfolding extractCallEdges_def by (rule fold_pres[where P = stateInv]) (simp_all add: inv_visitCall)

lemma findNodeByName_mem: "findNodeByName name ty s = Some k \<Longrightarrow> k \<in> nodeIds s"
proof -
  assume "findNodeByName name ty s = Some k"
  then obtain x where "find (\<lambda>(nodeId, node). n_label node = name \<and> n_type node = ty) (nodeMap s) = Some x"
    and "fst x = k"
    by (auto simp: findNodeByName_def)
  then show ?thesis using find_Some_set by (force simp: nodeIds_def)
qed

lemma extends_step_frame [simp]:
  "nodeMap (extends_step c ext s) = nodeMap s" "fileToNodes (extends_step c ext s) = fileToNodes s"
  by (simp_all add: extends_step_def split: option.splits)

lemma implements_step_frame [simp]:
  "nodeMap (implements_step c i s) = nodeMap s" "fileToNodes (implements_step c i s) = fileToNodes s"
  by (simp_all add: implements_step_def split: option.splits)

lemma inv_extends_step:
  assumes "stateInv s" "c \<in> nodeIds s"
  shows "stateInv (extends_step c ext s)"
  using assms
  by (auto simp: extends_step_def extendsEdge_def split: option.splits
           intro!: inv_addEdge dest: findNodeByName_mem)

lemma inv_implements_step:
  assumes "stateInv s" "c \<in> nodeIds s"
  shows "stateInv (implements_step c i s)"
  using assms
  by (auto simp: implements_step_def implementsEdge_def split: option.splits
           intro!: inv_addEdge dest: findNodeByName_mem)

lemma createInheritanceEdges_frame [simp]:
  "nodeMap (createInheritanceEdges cls s) = nodeMap s"
  "fileToNodes (createInheritanceEdges cls s) = fileToNodes s"
proof -
  have "nodeMap (fold (implements_step c) is st) = nodeMap st
        \<and> fileToNodes (fold (implements_step c) is st) = fileToNodes st" for c "is" st
    by (rule fold_pres[where P = "\<lambda>u. nodeMap u = nodeMap st \<and> fileToNodes u = fileToNodes st"])
       simp_all
  then show "nodeMap (createInheritanceEdges cls s) = nodeMap s"
    and "fileToNodes (createInheritanceEdges cls s) = fileToNodes s"
    by (simp_all add: createInheritanceEdges_def Let_def)
qed

lemma inv_createInheritanceEdges:
  assumes "stateInv s" "''class:'' @ cls_filePath cls @ '':'' @ cls_name cls \<in> nodeIds s"
  shows "stateInv (createInheritanceEdges cls s)"
proof -
  define c where "c = ''class:'' @ cls_filePath cls @ '':'' @ cls_name cls"
  have "stateInv (extends_step c (cls_extends cls) s) \<and> c \<in> nodeIds (extends_step c (cls_extends cls) s)"
    using assms inv_extends_step by (simp add: c_def nodeIds_def)
  then have "stateInv (fold (implements_step c) (cls_implements cls) (extends_step c (cls_extends cls) s))
             \<and> c \<in> nodeIds (fold (implements_step c) (cls_implements cls)
                               (extends_step c (cls_extends cls) s))"
    by (intro fold_pres[where P = "\<lambda>u. stateInv u \<and> c \<in> nodeIds u"])
       (auto simp: inv_implements_step nodeIds_def)
  then show ?thesis by (simp add: createInheritanceEdges_def Let_def c_def)
qed

lemma parentChild_step_frame:
  "nodeMap (fst (parentChild_step entry acc)) = nodeMap (fst acc)
   \<and> fileToNodes (fst (parentChild_step entry acc)) = fileToNodes (fst acc)"
  by (cases entry; cases acc) (auto simp: parentChild_step_def split: option.splits prod.splits)

lemma inv_parentChild_step:
  assumes "stateInv (fst acc)" "fst entry \<in> nodeIds (fst acc)"
  shows "stateInv (fst (parentChild_step entry acc))"
proof -
  obtain nodeId node where e: "entry = (nodeId, node)" by (cases entry)
  obtain s ec sc where a: "acc = (s, ec, sc)" by (cases acc)
  show ?thesis
  proof (cases "n_parentId node")
    case None
    then show ?thesis using assms e a by (simp add: parentChild_step_def)
  next
    case (Some parentId)
    show ?thesis
    proof (cases "truthy parentId \<and> parentId \<in> nodeIds s")
      case True
      then have "stateInv (addEdge (parentEdge parentId nodeId) s)"
        using assms e a by (intro inv_addEdge) (simp_all add: parentEdge_def)
      then show ?thesis
        using assms e a Some True by (simp add: parentChild_step_def map_has_nodeIds)
    next
      case False
      then show ?thesis
        using assms e a Some by (auto simp: parentChild_step_def map_has_nodeIds)
    qed
  qed
qed

lemma parentChildRun_frame:
  "nodeMap (fst (parentChildRun s)) = nodeMap s \<and> fileToNodes (fst (parentChildRun s)) = fileToNodes s"
  unfolding parentChildRun_def
  by (rule fold_pres[where P = "\<lambda>acc :: ExtractorState \<times> nat \<times> nat.
                             nodeMap (fst acc) = nodeMap s \<and> fileToNodes (fst acc) = fileToNodes s"])
     (simp_all add: parentChild_step_frame)

lemma createParentChildEdges_frame [simp]:
  "nodeMap (createParentChildEdges s) = nodeMap s"
  "fileToNodes (createParentChildEdges s) = fileToNodes s"
  by (simp_all add: createParentChildEdges_def parentChildRun_frame)

lemma inv_createParentChildEdges:
  assumes "stateInv s"
  shows "stateInv (createParentChildEdges s)"
proof -
  have "stateInv (fst (fold parentChild_step (nodeMap s) (s, 0, 0)))
        \<and> nodeMap (fst (fold parentChild_step (nodeMap s) (s, 0, 0))) = nodeMap s"
  proof (rule fold_pres[where P = "\<lambda>acc :: ExtractorState \<times> nat \<times> nat.
                                stateInv (fst acc) \<and> nodeMap (fst acc) = nodeMap s"])
    show "stateInv (fst (s, 0::nat, 0::nat)) \<and> nodeMap (fst (s, 0::nat, 0::nat)) = nodeMap s"
      using assms by simp
  next
    fix x and acc :: "ExtractorState \<times> nat \<times> nat"
    assume x: "x \<in> set (nodeMap s)" and p: "stateInv (fst acc) \<and> nodeMap (fst acc) = nodeMap s"
    then have "fst x \<in> nodeIds (fst acc)" by (simp add: nodeIds_def)
    then show "stateInv (fst (parentChild_step x acc)) \<and> nodeMap (fst (parentChild_step x acc)) = nodeMap s"
      using p inv_parentChild_step parentChild_step_frame by simp
  qed
  then show ?thesis by (simp add: createParentChildEdges_def parentChildRun_def)
qed

subsection \<open>The invariant holds after the build pass\<close>

lemma fold_nodeIds_mono:
  assumes "\<And>x s. nodeIds s \<subseteq> nodeIds (f x s)"
  shows "nodeIds s \<subseteq> nodeIds (fold f xs s)"
proof (induction xs arbitrary: s)
  case Nil
  then show ?case by simp
next
  case (Cons x xs)
  have "nodeIds s \<subseteq> nodeIds (f x s)" by (rule assms)
  also have "\<dots> \<subseteq> nodeIds (fold f xs (f x s))" by (rule Cons.IH)
  finally show ?case by simp
qed

lemma fold_createClassNode_has:
  "cls \<in> set cs \<Longrightarrow>
   ''class:'' @ cls_filePath cls @ '':'' @ cls_name cls \<in> nodeIds (fold createClassNode cs s)"
proof (induction cs arbitrary: s)
  case Nil
  then show ?case by simp
next
  case (Cons c cs)
  show ?case
  proof (cases "cls = c")
    case True
    have "nodeIds (createClassNode c s) \<subseteq> nodeIds (fold createClassNode cs (createClassNode c s))"
      by (rule fold_nodeIds_mono) (rule nodeIds_createClassNode)
    then show ?thesis using createClassNode_has[of c s] True by auto
  next
    case False
    then show ?thesis using Cons by simp
  qed
qed

text \<open>The states of the build pass after node creation and after each group of edges.\<close>

definition nodesCreated :: "ExtractorState \<Rightarrow> AnalysisResult \<Rightarrow> ExtractorState" where
  "nodesCreated s ar =
     fold (\<lambda>cls. fold (\<lambda>method. createMethodNode method cls) (cls_methods cls)) (ar_classes ar)
       (fold createClassNode (ar_classes ar)
          (fold createFunctionNode (ar_functions ar)
             (fold (\<lambda>file. createFileNode (path file)) (ar_files ar) (clearState s))))"

definition importsCreated :: "ExtractorState \<Rightarrow> AnalysisResult \<Rightarrow> ExtractorState" where
  "importsCreated s ar = fold createImportEdges (ar_imports ar) (nodesCreated s ar)"

definition callsCreated ::
  "ExtractorState \<Rightarrow> TypeScriptAnalyzer \<Rightarrow> AnalysisResult \<Rightarrow> ExtractorState" where
  "callsCreated s analyzer ar =
     fold (\<lambda>file st. case analyzer (path file) of
                        None \<Rightarrow> st
                      | Some sourceFile \<Rightarrow> extractCallEdges sourceFile (path file) st)
          (ar_files ar) (importsCreated s ar)"

definition inheritanceCreated ::
  "ExtractorState \<Rightarrow> TypeScriptAnalyzer \<Rightarrow> AnalysisResult \<Rightarrow> ExtractorState" where
  "inheritanceCreated s analyzer ar =
     fold createInheritanceEdges (ar_classes ar) (callsCreated s analyzer ar)"

lemma buildGraph_stages:
  "buildGraph s analyzer ar = createParentChildEdges (inheritanceCreated s analyzer ar)"
  by (simp add: buildGraph_def Let_def inheritanceCreated_def callsCreated_def
                importsCreated_def nodesCreated_def)

lemma inv_nodesCreated: "stateInv (nodesCreated s ar)"
proof -
  have 1: "stateInv (fold (\<lambda>file. createFileNode (path file)) (ar_files ar) (clearState s))"
    by (rule fold_pres[where P = stateInv]) (simp_all add: inv_createFileNode inv_cleared)
  have 2: "stateInv (fold createFunctionNode fs st)" if "stateInv st" for fs st
    by (rule fold_pres[where P = stateInv]) (simp_all add: inv_createFunctionNode that)
  have 3: "stateInv (fold createClassNode cs st)" if "stateInv st" for cs st
    by (rule fold_pres[where P = stateInv]) (simp_all add: inv_createClassNode that)
  have 4: "stateInv (fold (\<lambda>method. createMethodNode method cls) ms st)" if "stateInv st" for cls ms st
    by (rule fold_pres[where P = stateInv]) (simp_all add: inv_createMethodNode that)
  have 5: "stateInv (fold (\<lambda>cls. fold (\<lambda>method. createMethodNode method cls) (cls_methods cls)) cs st)"
    if "stateInv st" for cs st
    by (rule fold_pres[where P = stateInv]) (simp_all add: 4 that)
  show ?thesis unfolding nodesCreated_def by (intro 5 3 2 1)
qed

lemma classIds_nodesCreated:
  assumes "cls \<in> set (ar_classes ar)"
  shows "''class:'' @ cls_filePath cls @ '':'' @ cls_name cls \<in> nodeIds (nodesCreated s ar)"
proof -
  have m: "nodeIds st \<subseteq> nodeIds (fold (\<lambda>cls. fold (\<lambda>method. createMethodNode method cls)
                                           (cls_methods cls)) cs st)" for cs st
    by (intro fold_nodeIds_mono) (rule nodeIds_createMethodNode)
  show ?thesis
    unfolding nodesCreated_def using fold_createClassNode_has[OF assms] m by blast
qed

lemma importsCreated_props:
  "stateInv (importsCreated s ar) \<and> nodeIds (nodesCreated s ar) \<subseteq> nodeIds (importsCreated s ar)"
  unfolding importsCreated_def
proof (rule fold_pres[where P = "\<lambda>st. stateInv st \<and> nodeIds (nodesCreated s ar) \<subseteq> nodeIds st"])
  show "stateInv (nodesCreated s ar) \<and> nodeIds (nodesCreated s ar) \<subseteq> nodeIds (nodesCreated s ar)"
    by (simp add: inv_nodesCreated)
next
  fix x st assume "stateInv st \<and> nodeIds (nodesCreated s ar) \<subseteq> nodeIds st"
  then show "stateInv (createImportEdges x st) \<and> nodeIds (nodesCreated s ar) \<subseteq> nodeIds (createImportEdges x st)"
    using createImportEdges_pres[of st x] by auto
qed

lemma callsCreated_props:
  "stateInv (callsCreated s analyzer ar)
   \<and> nodeMap (callsCreated s analyzer ar) = nodeMap (importsCreated s ar)
   \<and> fileToNodes (callsCreated s analyzer ar) = fileToNodes (importsCreated s ar)"
  unfolding callsCreated_def
proof (rule fold_pres[where P = "\<lambda>st. stateInv st \<and> nodeMap st = nodeMap (importsCreated s ar)
                                     \<and> fileToNodes st = fileToNodes (importsCreated s ar)"])
  show "stateInv (importsCreated s ar) \<and> nodeMap (importsCreated s ar) = nodeMap (importsCreated s ar)
        \<and> fileToNodes (importsCreated s ar) = fileToNodes (importsCreated s ar)"
    using importsCreated_props by simp
next
  fix x st
  assume "stateInv st \<and> nodeMap st = nodeMap (importsCreated s ar)
          \<and> fileToNodes st = fileToNodes (importsCreated s ar)"
  then show "stateInv (case analyzer (path x) of None \<Rightarrow> st
                  | Some sourceFile \<Rightarrow> extractCallEdges sourceFile (path x) st)
             \<and> nodeMap (case analyzer (path x) of None \<Rightarrow> st
                  | Some sourceFile \<Rightarrow> extractCallEdges sourceFile (path x) st)
               = nodeMap (importsCreated s ar)
             \<and> fileToNodes (case analyzer (path x) of None \<Rightarrow> st
                  | Some sourceFile \<Rightarrow> extractCallEdges sourceFile (path x) st)
               = fileToNodes (importsCreated s ar)"
    by (cases "analyzer (path x)") (simp_all add: inv_extractCallEdges)
qed

lemma inheritanceCreated_props:
  "stateInv (inheritanceCreated s analyzer ar)
   \<and> nodeMap (inheritanceCreated s analyzer ar) = nodeMap (importsCreated s ar)
   \<and> fileToNodes (inheritanceCreated s analyzer ar) = fileToNodes (importsCreated s ar)"
  unfolding inheritanceCreated_def
proof (rule fold_pres[where P = "\<lambda>st. stateInv st \<and> nodeMap st = nodeMap (importsCreated s ar)
                                     \<and> fileToNodes st = fileToNodes (importsCreated s ar)"])
  show "stateInv (callsCreated s analyzer ar)
        \<and> nodeMap (callsCreated s analyzer ar) = nodeMap (importsCreated s ar)
        \<and> fileToNodes (callsCreated s analyzer ar) = fileToNodes (importsCreated s ar)"
    by (rule callsCreated_props)
next
  fix x st
  assume x: "x \<in> set (ar_classes ar)"
    and p: "stateInv st \<and> nodeMap st = nodeMap (importsCreated s ar)
            \<and> fileToNodes st = fileToNodes (importsCreated s ar)"
  have "''class:'' @ cls_filePath x @ '':'' @ cls_name x \<in> nodeIds (importsCreated s ar)"
    using classIds_nodesCreated[OF x] importsCreated_props by blast
  then have "''class:'' @ cls_filePath x @ '':'' @ cls_name x \<in> nodeIds st"
    using p by (simp add: nodeIds_def)
  then show "stateInv (createInheritanceEdges x st)
             \<and> nodeMap (createInheritanceEdges x st) = nodeMap (importsCreated s ar)
             \<and> fileToNodes (createInheritanceEdges x st) = fileToNodes (importsCreated s ar)"
    using p by (simp add: inv_createInheritanceEdges)
qed

lemma inv_buildGraph: "stateInv (buildGraph s analyzer ar)"
  unfolding buildGraph_stages
  using inheritanceCreated_props inv_createParentChildEdges by blast

lemma buildGraph_nodeMap:
  "nodeMap (buildGraph s analyzer ar) = nodeMap (importsCreated s ar)
   \<and> fileToNodes (buildGraph s analyzer ar) = fileToNodes (importsCreated s ar)"
  unfolding buildGraph_stages using inheritanceCreated_props by simp

subsection \<open>The graph read off a state\<close>

lemma graphOf_node_ids: "stateInv s \<Longrightarrow> n_id ` set (nodes (graphOf s)) = nodeIds s"
proof -
  assume i: "stateInv s"
  have "n_id n = k" if "(k, n) \<in> set (nodeMap s)" for k n
    using i that unfolding stateInv_def by (metis map_of_is_SomeI)
  then show ?thesis by (force simp: graphOf_def nodeIds_def)
qed

lemma graphOf_map_ids: "stateInv s \<Longrightarrow> map n_id (nodes (graphOf s)) = map fst (nodeMap s)"
proof -
  assume i: "stateInv s"
  have "n_id n = k" if "(k, n) \<in> set (nodeMap s)" for k n
    using i that unfolding stateInv_def by (metis map_of_is_SomeI)
  then show ?thesis by (auto simp: graphOf_def)
qed

lemma graphOf_map_edge_ids: "stateInv s \<Longrightarrow> map e_id (edges (graphOf s)) = map fst (edgeMap s)"
proof -
  assume i: "stateInv s"
  have "e_id e = k" if "(k, e) \<in> set (edgeMap s)" for k e
    using i that unfolding stateInv_def by (metis map_of_is_SomeI)
  then show ?thesis by (auto simp: graphOf_def)
qed

lemma graphOf_edge_closed:
  assumes "stateInv s" "e \<in> set (edges (graphOf s))"
  shows "e_source e \<in> n_id ` set (nodes (graphOf s)) \<and> e_target e \<in> n_id ` set (nodes (graphOf s))"
proof -
  obtain k where "(k, e) \<in> set (edgeMap s)" using assms(2) by (auto simp: graphOf_def)
  then have "map_of (edgeMap s) k = Some e"
    using assms(1) unfolding stateInv_def by (metis map_of_is_SomeI)
  then have "e_source e \<in> nodeIds s \<and> e_target e \<in> nodeIds s"
    using assms(1) unfolding stateInv_def by blast
  then show ?thesis using graphOf_node_ids[OF assms(1)] by simp
qed

section \<open>Scenarios\<close>

text \<open>
  Scenario A: \<open>a.ts\<close> holds \<open>import {foo} from './b'\<close> and \<open>b.ts\<close> declares the exported
  function \<open>foo\<close>.  The analyzer records the import with \<open>from\<close> set to the module
  specifier resolved against the directory of \<open>a.ts\<close> and completed with \<open>.ts\<close>, that
  is the path of \<open>b.ts\<close>; the importing file is not part of the record.
\<close>

definition scenarioA :: AnalysisResult where
  "scenarioA =
     \<lparr>ar_files = [\<lparr>path = ''a.ts'', content = ''''\<rparr>, \<lparr>path = ''b.ts'', content = ''''\<rparr>],
      ar_functions = [\<lparr>fn_name = ''foo'', fn_filePath = ''b.ts'', fn_line = 1, fn_column = 1,
                       fn_isExported = True, fn_isAsync = False, fn_parameters = [],
                       fn_returnType = None\<rparr>],
      ar_classes = [],
      ar_imports = [\<lparr>imp_from = ''b.ts'', imp_imports = [''foo''], imp_isDefault = False,
                     imp_isNamespace = False\<rparr>]\<rparr>"

definition noSources :: TypeScriptAnalyzer where
  "noSources = (\<lambda>filePath. None)"

definition graphA :: GraphData where
  "graphA =
     \<lparr>nodes =
        [\<lparr>n_id = ''file:a.ts'', n_label = ''a.ts'', n_type = File, n_filePath = ''a.ts'',
          n_line = None, n_column = None, n_parentId = None, n_metadata = FileMetadata ''a.ts''\<rparr>,
         \<lparr>n_id = ''file:b.ts'', n_label = ''b.ts'', n_type = File, n_filePath = ''b.ts'',
          n_line = None, n_column = None, n_parentId = None, n_metadata = FileMetadata ''b.ts''\<rparr>,
         \<lparr>n_id = ''function:b.ts:foo'', n_label = ''foo'', n_type = Function,
          n_filePath = ''b.ts'', n_line = Some 1, n_column = Some 1,
          n_parentId = Some ''file:b.ts'', n_metadata = FunctionMetadata True False [] None\<rparr>],
      edges =
        [\<lparr>e_id = ''import:file:b.ts:file:b.ts'', e_source = ''file:b.ts'',
          e_target = ''file:b.ts'', e_type = Import, e_label = Some ''foo'',
          e_metadata = ImportMetadata False False\<rparr>,
         \<lparr>e_id = ''import:file:b.ts:function:b.ts:foo'', e_source = ''file:b.ts'',
          e_target = ''function:b.ts:foo'', e_type = Import, e_label = Some ''foo'',
          e_metadata = ImportMetadata False False\<rparr>,
         \<lparr>e_id = ''import:function:b.ts:foo:function:b.ts:foo'',
          e_source = ''function:b.ts:foo'', e_target = ''function:b.ts:foo'', e_type = Import,
          e_label = Some ''foo'', e_metadata = ImportMetadata False False\<rparr>,
         \<lparr>e_id = ''parent:file:b.ts:function:b.ts:foo'', e_source = ''file:b.ts'',
          e_target = ''function:b.ts:foo'', e_type = Reference, e_label = Some ''contains'',
          e_metadata = ParentChildMetadata\<rparr>]\<rparr>"

lemma build_scenarioA: "graphOf (buildGraph cleared noSources scenarioA) = graphA"
  by code_simp

lemma filter_scenarioA_foo:
  "filterGraphByLLMContext graphA scenarioA None None
     (Some [\<lparr>h_name = ''foo'', h_filePath = Some ''b.ts''\<rparr>]) None None
   = \<lparr>nodes = tl (nodes graphA), edges = edges graphA\<rparr>"
  by code_simp

section \<open>Built graphs have no dangling edges\<close>

text \<open>
  Claim C10.  In the graph of a full build pass, before any filtering, the source id and
  the target id of every edge are ids of nodes of that graph.
\<close>

theorem buildGraph_no_dangling_edges:
  "\<forall>e \<in> set (edges (graphOf (buildGraph s analyzer ar))).
     e_source e \<in> n_id ` set (nodes (graphOf (buildGraph s analyzer ar)))
     \<and> e_target e \<in> n_id ` set (nodes (graphOf (buildGraph s analyzer ar)))"
  using graphOf_edge_closed[OF inv_buildGraph] by blast

theorem buildGraph_no_dangling_edges_witness:
  "edges (graphOf (buildGraph cleared noSources scenarioA)) = edges graphA
   \<and> e_source (edges graphA ! 1) = ''file:b.ts''
   \<and> e_target (edges graphA ! 1) = ''function:b.ts:foo''
   \<and> ''file:b.ts'' \<in> n_id ` set (nodes (graphOf (buildGraph cleared noSources scenarioA)))
   \<and> ''function:b.ts:foo'' \<in> n_id ` set (nodes (graphOf (buildGraph cleared noSources scenarioA)))"
proof -
  have m: "edges graphA ! 1 \<in> set (edges (graphOf (buildGraph cleared noSources scenarioA)))"
    unfolding build_scenarioA by (simp add: graphA_def)
  have v: "e_source (edges graphA ! 1) = ''file:b.ts''"
    "e_target (edges graphA ! 1) = ''function:b.ts:foo''"
    by (simp_all add: graphA_def)
  have "e_source (edges graphA ! 1) \<in> n_id ` set (nodes (graphOf (buildGraph cleared noSources scenarioA)))
        \<and> e_target (edges graphA ! 1) \<in> n_id ` set (nodes (graphOf (buildGraph cleared noSources scenarioA)))"
    using buildGraph_no_dangling_edges[of cleared noSources scenarioA] m by blast
  then show ?thesis using v by (simp add: build_scenarioA)
qed

section \<open>Resolution of a file hint\<close>

text \<open>The files whose basename equals the basename of the hint: the match set in the spec's words.\<close>

definition basenameMatches :: "string \<Rightarrow> FileInfo list \<Rightarrow> FileInfo list" where
  "basenameMatches targetFile fs =
     filter (\<lambda>f. path_basename (path f) = path_basename targetFile) fs"

definition knownFiles :: "FileInfo list" where
  "knownFiles = [\<lparr>path = ''/src/dir/b.ts'', content = ''''\<rparr>, \<lparr>path = ''/ab.ts'', content = ''''\<rparr>]"

lemma startsWith_append: "startsWith (t @ s) t"
  by (simp add: startsWith_def)

lemma str_includes_append: "str_includes (p @ t @ s) t"
proof (induction p)
  case Nil
  show ?case using startsWith_append[of t s] by (cases "t @ s") auto
next
  case (Cons c p)
  then show ?case by simp
qed

lemma endsWith_includes: "endsWith s t \<Longrightarrow> str_includes s t"
proof -
  assume "endsWith s t"
  then have "s = take (length s - length t) s @ t @ []"
    by (simp add: endsWith_def) (metis append_take_drop_id)
  then show ?thesis using str_includes_append by metis
qed

lemma hd_insort_key:
  "insort_key k x ys = (case ys of [] \<Rightarrow> [x] | y # _ \<Rightarrow> if k x \<le> k y then x # ys else y # insort_key k x (tl ys))"
  by (cases ys) auto

lemma sort_key_first_min:
  fixes k :: "'a \<Rightarrow> nat"
  shows "xs \<noteq> [] \<Longrightarrow> \<exists>s rest. sort_key k xs = s # rest \<and>
         find (\<lambda>x. \<forall>y \<in> set xs. k x \<le> k y) xs = Some s"
proof (induction xs)
  case Nil
  then show ?case by simp
next
  case (Cons x xs)
  show ?case
  proof (cases "xs = []")
    case True
    then show ?thesis by simp
  next
    case False
    then obtain m rest where m: "sort_key k xs = m # rest"
      and fm: "find (\<lambda>z. \<forall>y \<in> set xs. k z \<le> k y) xs = Some m"
      using Cons.IH by blast
    have min_m: "\<forall>y \<in> set xs. k m \<le> k y" and m_in: "m \<in> set xs"
      using fm by (auto simp: find_Some_iff)
    have sk: "sort_key k (x # xs) = insort_key k x (m # rest)"
      using m by simp
    show ?thesis
    proof (cases "k x \<le> k m")
      case True
      then have "\<forall>y \<in> set (x # xs). k x \<le> k y" using min_m by auto
      then have "find (\<lambda>z. \<forall>y \<in> set (x # xs). k z \<le> k y) (x # xs) = Some x"
        by (subst find.simps) (simp only: if_P)
      moreover have "sort_key k (x # xs) = x # m # rest" using sk True by simp
      ultimately show ?thesis by blast
    next
      case False
      then have nx: "\<not> (\<forall>y \<in> set (x # xs). k x \<le> k y)" using m_in by auto
      have "find (\<lambda>z. \<forall>y \<in> set (x # xs). k z \<le> k y) xs
            = find (\<lambda>z. \<forall>y \<in> set xs. k z \<le> k y) xs"
      proof (rule find_cong[OF refl])
        fix z assume "z \<in> set xs"
        then have "k m \<le> k z" using min_m by simp
        then show "(\<forall>y \<in> set (x # xs). k z \<le> k y) = (\<forall>y \<in> set xs. k z \<le> k y)"
          using False min_m m_in by (metis linorder_le_cases list.set_intros(2) set_ConsD order_trans)
      qed
      then have "find (\<lambda>z. \<forall>y \<in> set (x # xs). k z \<le> k y) (x # xs) = Some m"
        using nx fm by (subst find.simps) (simp only: if_not_P if_False)
      moreover have "sort_key k (x # xs) = m # insort_key k x rest" using sk False by simp
      ultimately show ?thesis by blast
    qed
  qed
qed

lemma find_path_eq:
  "map_option path (find (\<lambda>f. path f = t) fs) = (if t \<in> path ` set fs then Some t else None)"
  by (induction fs) auto

text \<open>
  Claim C5, as the code has it.  An absolute hint is matched exactly against the known
  paths.  Any other hint selects the known files whose basename equals the hint's basename
  or whose path ends with the hint: a single such file is returned; of several, the first
  in list order among those of least path length; when there is none, the first known file
  whose path contains the hint, or nothing.
\<close>

theorem findTargetFilePath_resolution:
  "(path_isAbsolute t \<longrightarrow>
      findTargetFilePath t fs = (if t \<in> path ` set fs then Some t else None))
   \<and> (\<not> path_isAbsolute t \<longrightarrow>
        matchingFiles t fs
          = filter (\<lambda>f. path_basename (path f) = path_basename t \<or> endsWith (path f) t) fs
        \<and> (\<forall>f. matchingFiles t fs = [f] \<longrightarrow> findTargetFilePath t fs = Some (path f))
        \<and> (1 < length (matchingFiles t fs) \<longrightarrow>
             (\<exists>s. find (\<lambda>f. \<forall>g \<in> set (matchingFiles t fs). length (path f) \<le> length (path g))
                        (matchingFiles t fs) = Some s
                  \<and> findTargetFilePath t fs = Some (path s)))
        \<and> (matchingFiles t fs = [] \<longrightarrow>
             findTargetFilePath t fs
               = map_option path (find (\<lambda>f. str_includes (path f) t) fs)))"
proof (intro conjI impI allI)
  assume "path_isAbsolute t"
  then show "findTargetFilePath t fs = (if t \<in> path ` set fs then Some t else None)"
    by (simp add: findTargetFilePath_def find_path_eq)
next
  show "matchingFiles t fs
          = filter (\<lambda>f. path_basename (path f) = path_basename t \<or> endsWith (path f) t) fs"
    by (simp add: matchingFiles_def)
next
  fix f assume "\<not> path_isAbsolute t" "matchingFiles t fs = [f]"
  then show "findTargetFilePath t fs = Some (path f)"
    by (simp add: findTargetFilePath_def)
next
  assume na: "\<not> path_isAbsolute t" and len: "1 < length (matchingFiles t fs)"
  then obtain a b rest where ms: "matchingFiles t fs = a # b # rest"
    by (cases "matchingFiles t fs"; cases "tl (matchingFiles t fs)") auto
  have "matchingFiles t fs \<noteq> []" using ms by simp
  from sort_key_first_min[OF this, of "\<lambda>f. length (path f)"]
  obtain s r where sk: "sort_key (\<lambda>f. length (path f)) (matchingFiles t fs) = s # r"
    and fs: "find (\<lambda>f. \<forall>g \<in> set (matchingFiles t fs). length (path f) \<le> length (path g))
               (matchingFiles t fs) = Some s"
    by blast
  have "findTargetFilePath t fs = Some (path s)"
    using na ms sk by (simp add: findTargetFilePath_def)
  then show "\<exists>s. find (\<lambda>f. \<forall>g \<in> set (matchingFiles t fs). length (path f) \<le> length (path g))
                        (matchingFiles t fs) = Some s
                  \<and> findTargetFilePath t fs = Some (path s)"
    using fs by blast
next
  assume na: "\<not> path_isAbsolute t" and e: "matchingFiles t fs = []"
  have "\<forall>f \<in> set fs. \<not> endsWith (path f) t"
    using e by (auto simp: matchingFiles_def filter_empty_conv)
  then have "find (\<lambda>f. endsWith (path f) t \<or> str_includes (path f) t) fs
             = find (\<lambda>f. str_includes (path f) t) fs"
    by (intro find_cong) auto
  then show "findTargetFilePath t fs = map_option path (find (\<lambda>f. str_includes (path f) t) fs)"
    using na e by (simp add: findTargetFilePath_def)
qed

text \<open>
  The hint \<open>b.ts\<close> is relative and exactly one known file has the basename \<open>b.ts\<close>, yet
  the file returned is \<open>/ab.ts\<close>, whose path merely ends with the hint and is shorter.
\<close>

theorem findTargetFilePath_basename_counterexample:
  "\<not> path_isAbsolute ''b.ts''
   \<and> basenameMatches ''b.ts'' knownFiles = [\<lparr>path = ''/src/dir/b.ts'', content = ''''\<rparr>]
   \<and> findTargetFilePath ''b.ts'' knownFiles = Some ''/ab.ts''"
  by code_simp

theorem findTargetFilePath_resolution_witness:
  "path_isAbsolute ''/ab.ts'' \<and> findTargetFilePath ''/ab.ts'' knownFiles = Some ''/ab.ts''
   \<and> \<not> path_isAbsolute ''b.ts'' \<and> 1 < length (matchingFiles ''b.ts'' knownFiles)
   \<and> findTargetFilePath ''b.ts'' knownFiles = Some ''/ab.ts''
   \<and> matchingFiles ''dir/b.ts'' knownFiles = [\<lparr>path = ''/src/dir/b.ts'', content = ''''\<rparr>]
   \<and> findTargetFilePath ''dir/b.ts'' knownFiles = Some ''/src/dir/b.ts''
   \<and> matchingFiles ''rc/di'' knownFiles = []
   \<and> findTargetFilePath ''rc/di'' knownFiles = Some ''/src/dir/b.ts''"
proof -
  have a: "path_isAbsolute ''/ab.ts''" and b: "\<not> path_isAbsolute ''b.ts''"
    and c: "\<not> path_isAbsolute ''dir/b.ts''" and d: "\<not> path_isAbsolute ''rc/di''"
    by (simp_all add: path_isAbsolute_def)
  have m1: "matchingFiles ''b.ts'' knownFiles = knownFiles" by code_simp
  have m2: "matchingFiles ''dir/b.ts'' knownFiles = [\<lparr>path = ''/src/dir/b.ts'', content = ''''\<rparr>]"
    by code_simp
  have m3: "matchingFiles ''rc/di'' knownFiles = []" by code_simp
  have i: "str_includes ''/src/dir/b.ts'' ''rc/di''" by code_simp
  have r1: "findTargetFilePath ''/ab.ts'' knownFiles = Some ''/ab.ts''"
    using findTargetFilePath_resolution[of "''/ab.ts''" knownFiles] a
    by (simp add: knownFiles_def)
  have l: "1 < length knownFiles" by (simp add: knownFiles_def)
  have f: "find (\<lambda>f. \<forall>g \<in> set knownFiles. length (path f) \<le> length (path g)) knownFiles
             = Some \<lparr>path = ''/ab.ts'', content = []\<rparr>"
    by (simp add: knownFiles_def)
  have r2: "findTargetFilePath ''b.ts'' knownFiles = Some ''/ab.ts''"
    using findTargetFilePath_resolution[of "''b.ts''" knownFiles] b l
    by (auto simp: m1 f)
  have r3: "findTargetFilePath ''dir/b.ts'' knownFiles = Some ''/src/dir/b.ts''"
    using findTargetFilePath_resolution[of "''dir/b.ts''" knownFiles] c m2 by simp
  have r4: "findTargetFilePath ''rc/di'' knownFiles = Some ''/src/dir/b.ts''"
    using findTargetFilePath_resolution[of "''rc/di''" knownFiles] d m3 i
    by (simp add: knownFiles_def)
  show ?thesis using a b l m1 m2 m3 r1 r2 r3 r4 by simp
qed

section \<open>Direct ingestion is a passthrough\<close>

text \<open>The recognized kind tags of a node and type tags of an edge.\<close>

definition nodeTags :: "string list" where
  "nodeTags = [''file'', ''function'', ''class'', ''method'', ''interface'', ''type'', ''variable'']"

definition edgeTags :: "string list" where
  "edgeTags = [''import'', ''export'', ''call'', ''extends'', ''implements'', ''reference'']"

lemma nodeTypeOfTag_unrecognized: "t \<notin> set nodeTags \<Longrightarrow> nodeTypeOfTag t = File"
  by (simp add: nodeTags_def nodeTypeOfTag_def)

lemma edgeTypeOfTag_unrecognized: "t \<notin> set edgeTags \<Longrightarrow> edgeTypeOfTag t = Reference"
  by (simp add: edgeTags_def edgeTypeOfTag_def)

lemma spec_edges_nth:
  "i < length es \<Longrightarrow>
   map (\<lambda>(index, e). specGraphEdge index e) (zip [0 ..< length es] es) ! i = specGraphEdge i (es ! i)"
  by simp

lemma list_ex_ids: "list_ex (\<lambda>n. n_id n = x) (map specGraphNode ns) = (x \<in> sn_id ` set ns)"
  by (induction ns) (auto simp: specGraphNode_def)

lemma warnings_mem:
  "i < length es \<Longrightarrow> w \<in> set (edgeWarnings gn i (es ! i)) \<Longrightarrow>
   w \<in> set (concat (map (\<lambda>(index, e). edgeWarnings gn index e) (zip [0 ..< length es] es)))"
proof -
  assume i: "i < length es" and w: "w \<in> set (edgeWarnings gn i (es ! i))"
  have "(i, es ! i) \<in> set (zip [0 ..< length es] es)"
    using i by (auto simp: set_zip intro!: exI[of _ i])
  then show ?thesis using w by auto
qed

text \<open>
  Claim C8.  Direct ingestion accepts every node array and edge array: the returned graph
  has one node per input node and one edge per input edge, in order; a node whose kind tag
  is not recognized is emitted with kind \<open>File\<close>, an edge whose type tag is not recognized
  with type \<open>Reference\<close>; an edge keeps its source and target ids as given, and when one
  of them is not the id of a supplied node the edge is still returned and a warning naming
  the edge and the missing id is printed.
\<close>

theorem createGraphFromLLMSpec_passthrough:
  "length (nodes (fst (createGraphFromLLMSpec ns es))) = length ns
   \<and> length (edges (fst (createGraphFromLLMSpec ns es))) = length es
   \<and> (\<forall>i < length ns.
        n_id (nodes (fst (createGraphFromLLMSpec ns es)) ! i) = sn_id (ns ! i)
        \<and> n_label (nodes (fst (createGraphFromLLMSpec ns es)) ! i) = sn_label (ns ! i)
        \<and> (sn_type (ns ! i) \<notin> set nodeTags \<longrightarrow>
             n_type (nodes (fst (createGraphFromLLMSpec ns es)) ! i) = File))
   \<and> (\<forall>i < length es.
        e_source (edges (fst (createGraphFromLLMSpec ns es)) ! i) = se_source (es ! i)
        \<and> e_target (edges (fst (createGraphFromLLMSpec ns es)) ! i) = se_target (es ! i)
        \<and> (se_type (es ! i) \<notin> set edgeTags \<longrightarrow>
             e_type (edges (fst (createGraphFromLLMSpec ns es)) ! i) = Reference)
        \<and> (se_source (es ! i) \<notin> sn_id ` set ns \<longrightarrow>
             ''[LLM-CodeMap] Edge '' @ digitsOf i @ '': Source node not found: '' @ se_source (es ! i)
               \<in> set (snd (createGraphFromLLMSpec ns es)))
        \<and> (se_target (es ! i) \<notin> sn_id ` set ns \<longrightarrow>
             ''[LLM-CodeMap] Edge '' @ digitsOf i @ '': Target node not found: '' @ se_target (es ! i)
               \<in> set (snd (createGraphFromLLMSpec ns es))))"
proof (intro conjI allI impI)
  show "length (nodes (fst (createGraphFromLLMSpec ns es))) = length ns"
    by (simp add: createGraphFromLLMSpec_def Let_def)
  show "length (edges (fst (createGraphFromLLMSpec ns es))) = length es"
    by (simp add: createGraphFromLLMSpec_def Let_def)
next
  fix i assume "i < length ns"
  then show "n_id (nodes (fst (createGraphFromLLMSpec ns es)) ! i) = sn_id (ns ! i)"
    and "n_label (nodes (fst (createGraphFromLLMSpec ns es)) ! i) = sn_label (ns ! i)"
    by (simp_all add: createGraphFromLLMSpec_def Let_def specGraphNode_def)
next
  fix i assume "i < length ns" "sn_type (ns ! i) \<notin> set nodeTags"
  then show "n_type (nodes (fst (createGraphFromLLMSpec ns es)) ! i) = File"
    by (simp add: createGraphFromLLMSpec_def Let_def specGraphNode_def nodeTypeOfTag_unrecognized)
next
  fix i assume i: "i < length es"
  have e: "edges (fst (createGraphFromLLMSpec ns es)) ! i = specGraphEdge i (es ! i)"
    using spec_edges_nth[OF i] by (simp add: createGraphFromLLMSpec_def Let_def)
  show "e_source (edges (fst (createGraphFromLLMSpec ns es)) ! i) = se_source (es ! i)"
    and "e_target (edges (fst (createGraphFromLLMSpec ns es)) ! i) = se_target (es ! i)"
    by (simp_all add: e specGraphEdge_def)
  {
    assume "se_type (es ! i) \<notin> set edgeTags"
    then show "e_type (edges (fst (createGraphFromLLMSpec ns es)) ! i) = Reference"
      by (simp add: e specGraphEdge_def edgeTypeOfTag_unrecognized)
  }
  {
    assume "se_source (es ! i) \<notin> sn_id ` set ns"
    then have "''[LLM-CodeMap] Edge '' @ digitsOf i @ '': Source node not found: '' @ se_source (es ! i)
                 \<in> set (edgeWarnings (map specGraphNode ns) i (es ! i))"
      by (simp add: edgeWarnings_def list_ex_ids)
    from warnings_mem[OF i this]
    show "''[LLM-CodeMap] Edge '' @ digitsOf i @ '': Source node not found: '' @ se_source (es ! i)
               \<in> set (snd (createGraphFromLLMSpec ns es))"
      by (simp add: createGraphFromLLMSpec_def Let_def)
  }
  {
    assume "se_target (es ! i) \<notin> sn_id ` set ns"
    then have "''[LLM-CodeMap] Edge '' @ digitsOf i @ '': Target node not found: '' @ se_target (es ! i)
                 \<in> set (edgeWarnings (map specGraphNode ns) i (es ! i))"
      by (simp add: edgeWarnings_def list_ex_ids)
    from warnings_mem[OF i this]
    show "''[LLM-CodeMap] Edge '' @ digitsOf i @ '': Target node not found: '' @ se_target (es ! i)
               \<in> set (snd (createGraphFromLLMSpec ns es))"
      by (simp add: createGraphFromLLMSpec_def Let_def)
  }
qed

definition scenarioD_nodes :: "SpecNode list" where
  "scenarioD_nodes = [\<lparr>sn_id = ''n1'', sn_label = ''n1'', sn_type = ''folder'', sn_filePath = None,
                       sn_line = None, sn_column = None\<rparr>]"

definition scenarioD_edges :: "SpecEdge list" where
  "scenarioD_edges = [\<lparr>se_source = ''n1'', se_target = ''n2'', se_type = ''uses'', se_label = None\<rparr>]"

theorem createGraphFromLLMSpec_passthrough_witness:
  "(0::nat) < length scenarioD_nodes \<and> (0::nat) < length scenarioD_edges
   \<and> sn_type (scenarioD_nodes ! 0) \<notin> set nodeTags
   \<and> se_type (scenarioD_edges ! 0) \<notin> set edgeTags
   \<and> se_target (scenarioD_edges ! 0) \<notin> sn_id ` set scenarioD_nodes
   \<and> length (nodes (fst (createGraphFromLLMSpec scenarioD_nodes scenarioD_edges))) = 1
   \<and> length (edges (fst (createGraphFromLLMSpec scenarioD_nodes scenarioD_edges))) = 1
   \<and> n_type (nodes (fst (createGraphFromLLMSpec scenarioD_nodes scenarioD_edges)) ! 0) = File
   \<and> e_type (edges (fst (createGraphFromLLMSpec scenarioD_nodes scenarioD_edges)) ! 0) = Reference
   \<and> e_target (edges (fst (createGraphFromLLMSpec scenarioD_nodes scenarioD_edges)) ! 0) = ''n2''
   \<and> ''[LLM-CodeMap] Edge 0: Target node not found: n2''
        \<in> set (snd (createGraphFromLLMSpec scenarioD_nodes scenarioD_edges))"
proof -
  have h: "(0::nat) < length scenarioD_nodes" "(0::nat) < length scenarioD_edges"
    "sn_type (scenarioD_nodes ! 0) \<notin> set nodeTags"
    "se_type (scenarioD_edges ! 0) \<notin> set edgeTags"
    "se_target (scenarioD_edges ! 0) \<notin> sn_id ` set scenarioD_nodes"
    by (simp_all add: scenarioD_nodes_def scenarioD_edges_def nodeTags_def edgeTags_def)
  have v: "se_target (scenarioD_edges ! 0) = ''n2''" "digitsOf 0 = ''0''"
    "length scenarioD_nodes = 1" "length scenarioD_edges = 1"
    by (simp_all add: scenarioD_edges_def scenarioD_nodes_def)
  show ?thesis
    using createGraphFromLLMSpec_passthrough[of scenarioD_nodes scenarioD_edges] h v
    by auto
qed

section \<open>A pass rebuilds the graph from scratch\<close>

lemma clearState_any: "clearState s = clearState s'"
  by (cases s; cases s') (simp add: clearState_def)

lemma buildGraph_any: "buildGraph s analyzer ar = buildGraph s' analyzer ar"
  unfolding buildGraph_def using clearState_any[of s s'] by simp

lemma filter_distinct_ids:
  "distinct (map n_id (nodes g)) \<Longrightarrow> distinct (map e_id (edges g)) \<Longrightarrow>
   distinct (map n_id (nodes (filterGraphByLLMContext g ar tf rf rfn rc fn)))
   \<and> distinct (map e_id (edges (filterGraphByLLMContext g ar tf rf rfn rc fn)))"
  by (simp add: filterGraphByLLMContext_def Let_def distinct_map_filter)

lemma graphOf_distinct:
  assumes "stateInv s"
  shows "distinct (map n_id (nodes (graphOf s))) \<and> distinct (map e_id (edges (graphOf s)))"
  using assms graphOf_map_ids[OF assms] graphOf_map_edge_ids[OF assms]
  by (simp add: stateInv_def)

text \<open>
  Claim C9.  A second pass over the same facts and hints, started on the state the first
  pass left behind, returns the same node list and edge list as the first, and no id
  occurs twice among the returned nodes or among the returned edges.
\<close>

theorem extractGraphData_idempotent:
  "snd (extractGraphData (fst (extractGraphData s analyzer ar tf rf rfn rc fn))
          analyzer ar tf rf rfn rc fn)
     = snd (extractGraphData s analyzer ar tf rf rfn rc fn)
   \<and> distinct (map n_id (nodes (snd (extractGraphData s analyzer ar tf rf rfn rc fn))))
   \<and> distinct (map e_id (edges (snd (extractGraphData s analyzer ar tf rf rfn rc fn))))"
proof -
  have same: "buildGraph (fst (extractGraphData s analyzer ar tf rf rfn rc fn)) analyzer ar
              = buildGraph s analyzer ar"
    by (rule buildGraph_any)
  have d: "distinct (map n_id (nodes (graphOf (buildGraph s analyzer ar))))
           \<and> distinct (map e_id (edges (graphOf (buildGraph s analyzer ar))))"
    by (rule graphOf_distinct[OF inv_buildGraph])
  have "distinct (map n_id (nodes (snd (extractGraphData s analyzer ar tf rf rfn rc fn))))
        \<and> distinct (map e_id (edges (snd (extractGraphData s analyzer ar tf rf rfn rc fn))))"
  proof (cases "hintGiven tf rf rfn rc fn")
    case True
    then show ?thesis
      using d filter_distinct_ids[of "graphOf (buildGraph s analyzer ar)" ar tf rf rfn rc fn]
      by (simp add: extractGraphData_def Let_def)
  next
    case False
    then show ?thesis using d by (simp add: extractGraphData_def Let_def)
  qed
  moreover have "snd (extractGraphData (fst (extractGraphData s analyzer ar tf rf rfn rc fn))
          analyzer ar tf rf rfn rc fn)
     = snd (extractGraphData s analyzer ar tf rf rfn rc fn)"
    using same by (simp add: extractGraphData_def Let_def)
  ultimately show ?thesis by simp
qed

section \<open>The filter returns no dangling edge\<close>

lemma filter_edge_closed:
  assumes "\<forall>e \<in> set (edges g). e_source e \<in> n_id ` set (nodes g) \<and> e_target e \<in> n_id ` set (nodes g)"
    and "e \<in> set (edges (filterGraphByLLMContext g ar tf rf rfn rc fn))"
  shows "e_source e \<in> n_id ` set (nodes (filterGraphByLLMContext g ar tf rf rfn rc fn))
         \<and> e_target e \<in> n_id ` set (nodes (filterGraphByLLMContext g ar tf rf rfn rc fn))"
proof -
  define rel where "rel = relatedNodeIds g ar tf rf rfn rc fn"
  have e: "e \<in> set (edges g)" "e_source e \<in> set rel" "e_target e \<in> set rel"
    using assms(2) by (simp_all add: filterGraphByLLMContext_def Let_def rel_def)
  have n: "n_id ` set (nodes (filterGraphByLLMContext g ar tf rf rfn rc fn))
           = n_id ` set (nodes g) \<inter> set rel"
    by (auto simp: filterGraphByLLMContext_def Let_def rel_def)
  show ?thesis using assms(1) e unfolding n by blast
qed

text \<open>
  Claim C4.  Whatever the hints, every edge that the context filter returns for a built
  graph has its source id and its target id among the ids of the nodes it returns.
\<close>

theorem filterGraphByLLMContext_no_dangling_edges:
  "\<forall>e \<in> set (edges (filterGraphByLLMContext (graphOf (buildGraph s analyzer ar)) ar
                        tf rf rfn rc fn)).
     e_source e \<in> n_id ` set (nodes (filterGraphByLLMContext (graphOf (buildGraph s analyzer ar))
                                         ar tf rf rfn rc fn))
     \<and> e_target e \<in> n_id ` set (nodes (filterGraphByLLMContext (graphOf (buildGraph s analyzer ar))
                                           ar tf rf rfn rc fn))"
proof
  fix e
  assume e: "e \<in> set (edges (filterGraphByLLMContext (graphOf (buildGraph s analyzer ar)) ar
                                tf rf rfn rc fn))"
  have closed: "\<forall>e \<in> set (edges (graphOf (buildGraph s analyzer ar))).
                  e_source e \<in> n_id ` set (nodes (graphOf (buildGraph s analyzer ar)))
                  \<and> e_target e \<in> n_id ` set (nodes (graphOf (buildGraph s analyzer ar)))"
    using graphOf_edge_closed[OF inv_buildGraph] by blast
  from filter_edge_closed[OF closed e]
  show "e_source e \<in> n_id ` set (nodes (filterGraphByLLMContext (graphOf (buildGraph s analyzer ar))
                                         ar tf rf rfn rc fn))
     \<and> e_target e \<in> n_id ` set (nodes (filterGraphByLLMContext (graphOf (buildGraph s analyzer ar))
                                           ar tf rf rfn rc fn))" .
qed

definition hintFoo :: "RelatedHint list option" where
  "hintFoo = Some [\<lparr>h_name = ''foo'', h_filePath = Some ''b.ts''\<rparr>]"

theorem filterGraphByLLMContext_no_dangling_edges_witness:
  "edges graphA ! 3 \<in> set (edges (filterGraphByLLMContext
                                    (graphOf (buildGraph cleared noSources scenarioA)) scenarioA
                                    None None hintFoo None None))
   \<and> e_source (edges graphA ! 3) = ''file:b.ts''
   \<and> e_target (edges graphA ! 3) = ''function:b.ts:foo''
   \<and> ''file:b.ts'' \<in> n_id ` set (nodes (filterGraphByLLMContext
                                    (graphOf (buildGraph cleared noSources scenarioA)) scenarioA
                                    None None hintFoo None None))
   \<and> ''function:b.ts:foo'' \<in> n_id ` set (nodes (filterGraphByLLMContext
                                    (graphOf (buildGraph cleared noSources scenarioA)) scenarioA
                                    None None hintFoo None None))"
proof -
  have m: "edges graphA ! 3 \<in> set (edges (filterGraphByLLMContext
                                    (graphOf (buildGraph cleared noSources scenarioA)) scenarioA
                                    None None hintFoo None None))"
    unfolding build_scenarioA hintFoo_def filter_scenarioA_foo by (simp add: graphA_def)
  have v: "e_source (edges graphA ! 3) = ''file:b.ts''"
    "e_target (edges graphA ! 3) = ''function:b.ts:foo''"
    by (simp_all add: graphA_def)
  have "e_source (edges graphA ! 3) \<in> n_id ` set (nodes (filterGraphByLLMContext
                                    (graphOf (buildGraph cleared noSources scenarioA)) scenarioA
                                    None None hintFoo None None))
        \<and> e_target (edges graphA ! 3) \<in> n_id ` set (nodes (filterGraphByLLMContext
                                    (graphOf (buildGraph cleared noSources scenarioA)) scenarioA
                                    None None hintFoo None None))"
    using filterGraphByLLMContext_no_dangling_edges[of cleared noSources scenarioA
            None None hintFoo None None] m by blast
  then show ?thesis using m v by simp
qed

section \<open>Scenario A: the import edges of the built graph\<close>

text \<open>
  Claim C1 at Scenario A.  The built graph has the two file nodes and the function node
  \<open>function:b.ts:foo\<close>, but its three import edges all start at nodes of \<open>b.ts\<close>, the file
  named by the \<open>from\<close> field of the import record: none has \<open>file:a.ts\<close>, the only node of
  \<open>a.ts\<close>, as its source.
\<close>

theorem scenarioA_built_graph:
  "map n_id (nodes (graphOf (buildGraph cleared noSources scenarioA)))
     = [''file:a.ts'', ''file:b.ts'', ''function:b.ts:foo'']
   \<and> map (\<lambda>e. (e_type e, e_source e, e_target e))
         (edges (graphOf (buildGraph cleared noSources scenarioA)))
     = [(Import, ''file:b.ts'', ''file:b.ts''),
        (Import, ''file:b.ts'', ''function:b.ts:foo''),
        (Import, ''function:b.ts:foo'', ''function:b.ts:foo''),
        (Reference, ''file:b.ts'', ''function:b.ts:foo'')]
   \<and> filter (\<lambda>e. e_source e = ''file:a.ts'')
         (edges (graphOf (buildGraph cleared noSources scenarioA))) = []"
  unfolding build_scenarioA by (simp add: graphA_def)

section \<open>The guard before the filter\<close>

lemma extractGraphData_no_hints:
  "tf = None \<or> tf = Some '''' \<Longrightarrow>
   snd (extractGraphData s analyzer ar tf None None None None) = graphOf (buildGraph s analyzer ar)"
  by (auto simp: extractGraphData_def hintGiven_def truthy_def Let_def)

text \<open>
  Claim C2 at an empty hint list.  With \<open>relatedFiles = []\<close> and no other hint, the guard
  lets the filter run (an array is truthy); no seed is found, and the graph returned has no
  node and no edge, although the built graph of Scenario A has three nodes and four edges.
\<close>

theorem extractGraphData_empty_relatedFiles:
  "snd (extractGraphData cleared noSources scenarioA None (Some []) None None None)
     = \<lparr>nodes = [], edges = []\<rparr>
   \<and> length (nodes (graphOf (buildGraph cleared noSources scenarioA))) = 3
   \<and> length (edges (graphOf (buildGraph cleared noSources scenarioA))) = 4"
proof -
  have "filterGraphByLLMContext graphA scenarioA None (Some []) None None None
          = \<lparr>nodes = [], edges = []\<rparr>"
    by (simp add: filterGraphByLLMContext_def relatedNodeIds_def seeds_def seedFocusNodes_def
          seedTargetFile_def seedRelatedFiles_def seedRelatedFunctions_def seedRelatedClasses_def)
  then show ?thesis
    by (simp add: extractGraphData_def Let_def hintGiven_def build_scenarioA graphA_def)
qed

section \<open>The build pass as a sequence of atomic steps\<close>

text \<open>
  Every state change of steps 1 to 7 of the build pass is one of: the creation of a file,
  function, class or method node, or the insertion of one import, call, extends or
  implements edge, each with what the code has checked before it.
\<close>

inductive builds :: "AnalysisResult \<Rightarrow> ExtractorState \<Rightarrow> ExtractorState \<Rightarrow> bool"
  for ar :: AnalysisResult where
  b_refl: "builds ar s s"
| b_trans: "builds ar s s' \<Longrightarrow> builds ar s' s'' \<Longrightarrow> builds ar s s''"
| b_file: "builds ar s (createFileNode fp s)"
| b_function: "func \<in> set (ar_functions ar) \<Longrightarrow> builds ar s (createFunctionNode func s)"
| b_class: "cls \<in> set (ar_classes ar) \<Longrightarrow> builds ar s (createClassNode cls s)"
| b_method: "cls \<in> set (ar_classes ar) \<Longrightarrow> method \<in> set (cls_methods cls) \<Longrightarrow>
             builds ar s (createMethodNode method cls s)"
| b_import: "src \<in> nodeIds s \<Longrightarrow> tgt \<in> nodeIds s \<Longrightarrow>
             builds ar s (addEdge (importEdge importInfo importName src tgt) s)"
| b_call: "stateInv s \<Longrightarrow> map_of (nodeMap s) nodeId = Some node \<Longrightarrow>
           findCallerNode node s = Some callerNodeId \<Longrightarrow>
           builds ar s (addEdge (callEdge callerNodeId nodeId) s)"
| b_extends: "c \<in> nodeIds s \<Longrightarrow> t \<in> nodeIds s \<Longrightarrow> builds ar s (addEdge (extendsEdge c t) s)"
| b_implements: "c \<in> nodeIds s \<Longrightarrow> t \<in> nodeIds s \<Longrightarrow>
                 builds ar s (addEdge (implementsEdge c t) s)"

lemma fold_builds:
  assumes "\<And>x st. x \<in> set xs \<Longrightarrow> P st \<Longrightarrow> builds ar st (f x st) \<and> P (f x st)" "P s"
  shows "builds ar s (fold f xs s) \<and> P (fold f xs s)"
  using assms
proof (induction xs arbitrary: s)
  case Nil
  then show ?case by (simp add: b_refl)
next
  case (Cons x xs)
  have 1: "builds ar s (f x s) \<and> P (f x s)" using Cons.prems by simp
  have 2: "builds ar (f x s) (fold f xs (f x s)) \<and> P (fold f xs (f x s))"
    using Cons.prems 1 by (intro Cons.IH) simp_all
  show ?case using b_trans[OF conjunct1[OF 1] conjunct1[OF 2]] 2 by simp
qed

lemma builds_nodesCreated: "builds ar (clearState s) (nodesCreated s ar)"
proof -
  have 1: "builds ar st (fold (\<lambda>file. createFileNode (path file)) fs st)" for fs st
    using fold_builds[where P = "\<lambda>_. True" and f = "\<lambda>file. createFileNode (path file)"]
    by (simp add: b_file)
  have 2: "builds ar st (fold createFunctionNode (ar_functions ar) st)" for st
    using fold_builds[where P = "\<lambda>_. True" and f = createFunctionNode and xs = "ar_functions ar"]
    by (simp add: b_function)
  have 3: "builds ar st (fold createClassNode (ar_classes ar) st)" for st
    using fold_builds[where P = "\<lambda>_. True" and f = createClassNode and xs = "ar_classes ar"]
    by (simp add: b_class)
  have 4: "builds ar st (fold (\<lambda>method. createMethodNode method cls) (cls_methods cls) st)"
    if "cls \<in> set (ar_classes ar)" for cls st
    using fold_builds[where P = "\<lambda>_. True" and f = "\<lambda>method. createMethodNode method cls"
                        and xs = "cls_methods cls"] that
    by (simp add: b_method)
  have 5: "builds ar st (fold (\<lambda>cls. fold (\<lambda>method. createMethodNode method cls) (cls_methods cls))
                           (ar_classes ar) st)" for st
    using fold_builds[where P = "\<lambda>_. True" and xs = "ar_classes ar"
            and f = "\<lambda>cls. fold (\<lambda>method. createMethodNode method cls) (cls_methods cls)"] 4
    by simp
  show ?thesis unfolding nodesCreated_def by (rule b_trans[OF 1 b_trans[OF 2 b_trans[OF 3 5]]])
qed

lemma builds_importTargets:
  assumes "stateInv s" "x \<in> nodeIds s"
  shows "builds ar s (fold (importTarget_step importInfo importName x) ts s)
         \<and> stateInv (fold (importTarget_step importInfo importName x) ts s)
         \<and> nodeIds (fold (importTarget_step importInfo importName x) ts s) = nodeIds s"
proof -
  have "builds ar s (fold (importTarget_step importInfo importName x) ts s)
        \<and> (stateInv (fold (importTarget_step importInfo importName x) ts s)
           \<and> nodeIds (fold (importTarget_step importInfo importName x) ts s) = nodeIds s)"
  proof (rule fold_builds[where P = "\<lambda>u. stateInv u \<and> nodeIds u = nodeIds s"])
    show "stateInv s \<and> nodeIds s = nodeIds s" using assms by simp
  next
    fix y u assume q: "stateInv u \<and> nodeIds u = nodeIds s"
    then have xu: "x \<in> nodeIds u" using assms(2) by simp
    have b: "builds ar u (importTarget_step importInfo importName x y u)"
    proof (cases "map_of (nodeMap u) y")
      case None
      then show ?thesis by (simp add: importTarget_step_def b_refl)
    next
      case (Some targetNode)
      then have "y \<in> nodeIds u" by (rule map_of_Some_nodeIds)
      then show ?thesis using Some xu by (simp add: importTarget_step_def b_refl b_import)
    qed
    from importTarget_step_pres[OF conjunct1[OF q] xu, of importInfo importName y]
    show "builds ar u (importTarget_step importInfo importName x y u)
          \<and> stateInv (importTarget_step importInfo importName x y u)
          \<and> nodeIds (importTarget_step importInfo importName x y u) = nodeIds s"
      using b q by simp
  qed
  then show ?thesis by simp
qed

lemma builds_importName_step:
  assumes "stateInv s" "set src \<subseteq> nodeIds s"
  shows "builds ar s (importName_step importInfo src importName s)"
proof (cases "findFileByExport importName s")
  case None
  then show ?thesis by (simp add: importName_step_def b_refl)
next
  case (Some targetFile)
  show ?thesis
  proof (cases "truthy targetFile")
    case False
    then show ?thesis using Some by (simp add: importName_step_def b_refl)
  next
    case True
    define s1 where "s1 = ensureTargetFile targetFile s"
    define s2 where "s2 = importFileEdge importInfo importName src targetFile s1"
    have b1: "builds ar s s1" by (simp add: s1_def ensureTargetFile_def b_file b_refl)
    have i1: "stateInv s1" and n1: "nodeIds s \<subseteq> nodeIds s1"
      using ensureTargetFile_pres[OF assms(1)] by (simp_all add: s1_def)
    have b2: "builds ar s1 s2"
      unfolding s2_def importFileEdge_def
      by (auto simp: map_has_nodeIds b_refl b_import split: list.splits)
    have i2: "stateInv s2" and n2: "nodeIds s2 = nodeIds s1"
      using importFileEdge_pres[OF i1] by (simp_all add: s2_def)
    have step: "importName_step importInfo src importName s =
        fold (\<lambda>sourceNodeId.
                fold (importTarget_step importInfo importName sourceNodeId)
                     (fileNodesOf s1 targetFile))
             src s2"
      using Some True by (simp add: importName_step_def Let_def s1_def s2_def)
    have "builds ar s2 (importName_step importInfo src importName s)
          \<and> (stateInv (importName_step importInfo src importName s)
             \<and> nodeIds (importName_step importInfo src importName s) = nodeIds s2)"
      unfolding step
    proof (rule fold_builds[where P = "\<lambda>st. stateInv st \<and> nodeIds st = nodeIds s2"])
      show "stateInv s2 \<and> nodeIds s2 = nodeIds s2" using i2 by simp
    next
      fix x st assume x: "x \<in> set src" and p: "stateInv st \<and> nodeIds st = nodeIds s2"
      then have xs: "x \<in> nodeIds st" using assms(2) n1 n2 by auto
      from builds_importTargets[OF conjunct1[OF p] xs, of ar importInfo importName
             "fileNodesOf s1 targetFile"]
      show "builds ar st (fold (importTarget_step importInfo importName x)
                            (fileNodesOf s1 targetFile) st)
            \<and> stateInv (fold (importTarget_step importInfo importName x)
                            (fileNodesOf s1 targetFile) st)
            \<and> nodeIds (fold (importTarget_step importInfo importName x)
                           (fileNodesOf s1 targetFile) st) = nodeIds s2"
        using p by simp
    qed
    then have "builds ar s2 (importName_step importInfo src importName s)" by simp
    then show ?thesis by (rule b_trans[OF b1 b_trans[OF b2]])
  qed
qed

lemma builds_createImportEdges:
  assumes "stateInv s"
  shows "builds ar s (createImportEdges importInfo s)"
proof -
  obtain s' src where isn: "importSourceNodes importInfo s = (s', src)"
    by (cases "importSourceNodes importInfo s")
  from importSourceNodes_props[OF assms isn]
  have i: "stateInv s'" and n: "nodeIds s \<subseteq> nodeIds s'" and src: "set src \<subseteq> nodeIds s'"
    by simp_all
  have b0: "builds ar s s'"
    using isn by (auto simp: importSourceNodes_def Let_def b_refl b_file split: if_splits)
  have "builds ar s' (fold (importName_step importInfo src) (imp_imports importInfo) s')
        \<and> (stateInv (fold (importName_step importInfo src) (imp_imports importInfo) s')
           \<and> nodeIds s' \<subseteq> nodeIds (fold (importName_step importInfo src)
                                       (imp_imports importInfo) s'))"
  proof (rule fold_builds[where P = "\<lambda>st. stateInv st \<and> nodeIds s' \<subseteq> nodeIds st"])
    show "stateInv s' \<and> nodeIds s' \<subseteq> nodeIds s'" using i by simp
  next
    fix x st assume p: "stateInv st \<and> nodeIds s' \<subseteq> nodeIds st"
    then have ss: "set src \<subseteq> nodeIds st" using src by auto
    from importName_step_pres[OF conjunct1[OF p] ss, of importInfo x]
      builds_importName_step[OF conjunct1[OF p] ss, of ar importInfo x]
    show "builds ar st (importName_step importInfo src x st)
          \<and> stateInv (importName_step importInfo src x st)
          \<and> nodeIds s' \<subseteq> nodeIds (importName_step importInfo src x st)"
      using p by auto
  qed
  then have "builds ar s' (createImportEdges importInfo s)"
    using isn by (auto simp: createImportEdges_def b_refl)
  then show ?thesis by (rule b_trans[OF b0])
qed

lemma builds_importsCreated: "builds ar (clearState s) (importsCreated s ar)"
proof -
  have "builds ar (nodesCreated s ar) (importsCreated s ar) \<and> stateInv (importsCreated s ar)"
    unfolding importsCreated_def
  proof (rule fold_builds[where P = stateInv])
    show "stateInv (nodesCreated s ar)" by (rule inv_nodesCreated)
  next
    fix x st assume "stateInv st"
    then show "builds ar st (createImportEdges x st) \<and> stateInv (createImportEdges x st)"
      using builds_createImportEdges createImportEdges_pres by blast
  qed
  then have "builds ar (nodesCreated s ar) (importsCreated s ar)" by simp
  then show ?thesis by (rule b_trans[OF builds_nodesCreated])
qed

lemma builds_callTarget_step:
  "stateInv s \<Longrightarrow> builds ar s (callTarget_step functionName nodeId s)"
  by (auto simp: callTarget_step_def b_refl b_call split: option.splits)

lemma builds_extractCallEdges:
  assumes "stateInv s"
  shows "builds ar s (extractCallEdges sourceFile filePath s)"
proof -
  have v: "builds ar st (visitCall filePath callee st) \<and> stateInv (visitCall filePath callee st)"
    if "stateInv st" for callee st
  proof (cases "calleeName callee")
    case None
    then show ?thesis using that by (simp add: visitCall_def b_refl)
  next
    case (Some nm)
    have "builds ar st (fold (callTarget_step nm) (fileNodesOf st filePath) st)
          \<and> stateInv (fold (callTarget_step nm) (fileNodesOf st filePath) st)"
      by (rule fold_builds[where P = stateInv])
         (simp_all add: builds_callTarget_step inv_callTarget_step that)
    then show ?thesis using Some by (simp add: visitCall_def)
  qed
  have "builds ar s (fold (visitCall filePath) sourceFile s)
        \<and> stateInv (fold (visitCall filePath) sourceFile s)"
    by (rule fold_builds[where P = stateInv]) (simp_all add: v assms)
  then show ?thesis by (simp add: extractCallEdges_def)
qed

lemma builds_callsCreated: "builds ar (clearState s) (callsCreated s analyzer ar)"
proof -
  have "builds ar (importsCreated s ar) (callsCreated s analyzer ar)
        \<and> stateInv (callsCreated s analyzer ar)"
    unfolding callsCreated_def
  proof (rule fold_builds[where P = stateInv])
    show "stateInv (importsCreated s ar)" using importsCreated_props by simp
  next
    fix x st assume i: "stateInv st"
    show "builds ar st (case analyzer (path x) of None \<Rightarrow> st
                        | Some sourceFile \<Rightarrow> extractCallEdges sourceFile (path x) st)
          \<and> stateInv (case analyzer (path x) of None \<Rightarrow> st
                        | Some sourceFile \<Rightarrow> extractCallEdges sourceFile (path x) st)"
      using i by (cases "analyzer (path x)")
                 (simp_all add: b_refl builds_extractCallEdges inv_extractCallEdges)
  qed
  then have "builds ar (importsCreated s ar) (callsCreated s analyzer ar)" by simp
  then show ?thesis by (rule b_trans[OF builds_importsCreated])
qed

lemma builds_createInheritanceEdges:
  assumes "''class:'' @ cls_filePath cls @ '':'' @ cls_name cls \<in> nodeIds s"
  shows "builds ar s (createInheritanceEdges cls s)"
proof -
  define c where "c = ''class:'' @ cls_filePath cls @ '':'' @ cls_name cls"
  have e: "builds ar st (extends_step c ext st)" if "c \<in> nodeIds st" for ext st
    using that
    by (auto simp: extends_step_def b_refl b_extends split: option.splits dest: findNodeByName_mem)
  have i: "builds ar st (implements_step c nm st)" if "c \<in> nodeIds st" for nm st
    using that
    by (auto simp: implements_step_def b_refl b_implements split: option.splits
             dest: findNodeByName_mem)
  have c0: "c \<in> nodeIds s" using assms by (simp add: c_def)
  have c1: "c \<in> nodeIds (extends_step c (cls_extends cls) s)"
    using c0 by (simp add: nodeIds_def)
  have "builds ar (extends_step c (cls_extends cls) s)
          (fold (implements_step c) (cls_implements cls) (extends_step c (cls_extends cls) s))
        \<and> c \<in> nodeIds (fold (implements_step c) (cls_implements cls)
                          (extends_step c (cls_extends cls) s))"
  proof (rule fold_builds[where P = "\<lambda>st :: ExtractorState. c \<in> nodeIds st"])
    show "c \<in> nodeIds (extends_step c (cls_extends cls) s)" by (rule c1)
  next
    fix x and st :: ExtractorState
    assume p: "c \<in> nodeIds st"
    have "nodeIds (implements_step c x st) = nodeIds st" by (simp add: nodeIds_def)
    then show "builds ar st (implements_step c x st) \<and> c \<in> nodeIds (implements_step c x st)"
      using i[OF p] p by simp
  qed
  then have "builds ar (extends_step c (cls_extends cls) s) (createInheritanceEdges cls s)"
    by (simp add: createInheritanceEdges_def Let_def c_def)
  then show ?thesis by (rule b_trans[OF e[OF c0]])
qed

lemma builds_inheritanceCreated: "builds ar (clearState s) (inheritanceCreated s analyzer ar)"
proof -
  have "builds ar (callsCreated s analyzer ar) (inheritanceCreated s analyzer ar)
        \<and> nodeMap (inheritanceCreated s analyzer ar) = nodeMap (importsCreated s ar)"
    unfolding inheritanceCreated_def
  proof (rule fold_builds[where P = "\<lambda>st :: ExtractorState. nodeMap st = nodeMap (importsCreated s ar)"])
    show "nodeMap (callsCreated s analyzer ar) = nodeMap (importsCreated s ar)"
      using callsCreated_props by simp
  next
    fix x and st :: ExtractorState
    assume x: "x \<in> set (ar_classes ar)" and p: "nodeMap st = nodeMap (importsCreated s ar)"
    have "''class:'' @ cls_filePath x @ '':'' @ cls_name x \<in> nodeIds (importsCreated s ar)"
      using classIds_nodesCreated[OF x] importsCreated_props by blast
    then have "''class:'' @ cls_filePath x @ '':'' @ cls_name x \<in> nodeIds st"
      using p by (simp add: nodeIds_def)
    then show "builds ar st (createInheritanceEdges x st)
               \<and> nodeMap (createInheritanceEdges x st) = nodeMap (importsCreated s ar)"
      using p builds_createInheritanceEdges by simp
  qed
  then have "builds ar (callsCreated s analyzer ar) (inheritanceCreated s analyzer ar)" by simp
  then show ?thesis by (rule b_trans[OF builds_callsCreated])
qed

section \<open>Shapes of the stored nodes and edges\<close>

text \<open>
  Every stored node was made from a fact: a file node from a path, a function, class or
  method node from a function, class or method record of the analysis result, with the id
  and the parent id that the creating method composes.
\<close>

definition nodeShape :: "AnalysisResult \<Rightarrow> GraphNode \<Rightarrow> bool" where
  "nodeShape ar n =
     ((n_type n = File \<and> n_id n = ''file:'' @ n_filePath n \<and> n_parentId n = None)
      \<or> (n_type n = Function \<and> n_parentId n = Some (''file:'' @ n_filePath n)
          \<and> (\<exists>f \<in> set (ar_functions ar).
                n_filePath n = fn_filePath f
                \<and> n_id n = ''function:'' @ fn_filePath f @ '':'' @ fn_name f))
      \<or> (n_type n = Class \<and> n_parentId n = Some (''file:'' @ n_filePath n)
          \<and> (\<exists>c \<in> set (ar_classes ar).
                n_filePath n = cls_filePath c
                \<and> n_id n = ''class:'' @ cls_filePath c @ '':'' @ cls_name c))
      \<or> (n_type n = Method
          \<and> (\<exists>c \<in> set (ar_classes ar). \<exists>m \<in> set (cls_methods c).
                n_filePath n = m_filePath m
                \<and> n_id n = ''method:'' @ m_filePath m @ '':'' @ cls_name c @ ''.'' @ m_name m
                \<and> n_parentId n = Some (''class:'' @ m_filePath m @ '':'' @ cls_name c))))"

definition nodesShaped :: "AnalysisResult \<Rightarrow> ExtractorState \<Rightarrow> bool" where
  "nodesShaped ar s = (\<forall>k n. map_of (nodeMap s) k = Some n \<longrightarrow> nodeShape ar n)"

text \<open>The key under which an edge is stored: a word for its type, then source and target.\<close>

definition edgeKey :: "GraphEdge \<Rightarrow> string" where
  "edgeKey e =
     (case e_type e of
        Import \<Rightarrow> ''import:'' | Export \<Rightarrow> ''export:'' | Call \<Rightarrow> ''call:''
      | Extends \<Rightarrow> ''extends:'' | Implements \<Rightarrow> ''implements:'' | Reference \<Rightarrow> ''parent:'')
     @ e_source e @ '':'' @ e_target e"

text \<open>
  Before the containment edges are made, every stored edge is an import, call, extends or
  implements edge stored under its key, and a call edge runs from a function node to a node
  of the same file.
\<close>

definition edgesShaped :: "ExtractorState \<Rightarrow> bool" where
  "edgesShaped s =
     (\<forall>k e. map_of (edgeMap s) k = Some e \<longrightarrow>
        e_type e \<in> {Import, Call, Extends, Implements} \<and> e_id e = edgeKey e
        \<and> (e_type e = Call \<longrightarrow>
             (\<exists>ns nt. map_of (nodeMap s) (e_source e) = Some ns
                      \<and> map_of (nodeMap s) (e_target e) = Some nt
                      \<and> n_type ns = Function \<and> n_filePath ns = n_filePath nt)))"

lemma map_of_putNode_keep:
  "n_id n \<notin> nodeIds s \<Longrightarrow> map_of (nodeMap s) k = Some m \<Longrightarrow>
   map_of (nodeMap (putNode n s)) k = Some m"
  using map_of_Some_nodeIds[of s k m] by (auto simp: map_of_putNode)

lemma create_keeps:
  assumes "map_of (nodeMap s) k = Some m"
  shows "map_of (nodeMap (createFileNode fp s)) k = Some m"
    and "map_of (nodeMap (createFunctionNode func s)) k = Some m"
    and "map_of (nodeMap (createClassNode cls s)) k = Some m"
    and "map_of (nodeMap (createMethodNode method cls s)) k = Some m"
  using assms
  by (simp_all add: createFileNode_eq createFunctionNode_eq createClassNode_eq
        createMethodNode_eq map_of_putNode_keep)

lemma create_edgeMap [simp]:
  "edgeMap (createFileNode fp s) = edgeMap s"
  "edgeMap (createFunctionNode func s) = edgeMap s"
  "edgeMap (createClassNode cls s) = edgeMap s"
  "edgeMap (createMethodNode method cls s) = edgeMap s"
  by (simp_all add: createFileNode_eq createFunctionNode_eq createClassNode_eq
        createMethodNode_eq)

lemma nodesShaped_put:
  assumes "nodesShaped ar s" "nodeShape ar n"
  shows "nodesShaped ar (putNode n s)" "nodesShaped ar (pushFileNode fp i (putNode n s))"
  using assms by (auto simp: nodesShaped_def map_of_putNode)

lemma nodesShaped_addEdge [simp]: "nodesShaped ar (addEdge e s) = nodesShaped ar s"
  by (simp add: nodesShaped_def)

lemma builds_nodesShaped:
  "builds ar s s' \<Longrightarrow> nodesShaped ar s \<Longrightarrow> nodesShaped ar s'"
proof (induction rule: builds.induct)
  case (b_file s fp)
  have "nodeShape ar \<lparr>n_id = ''file:'' @ fp, n_label = path_basename fp, n_type = File,
                       n_filePath = fp, n_line = None, n_column = None, n_parentId = None,
                       n_metadata = FileMetadata fp\<rparr>"
    by (simp add: nodeShape_def)
  then show ?case using b_file by (simp add: createFileNode_eq nodesShaped_put)
next
  case (b_function func s)
  have "nodeShape ar \<lparr>n_id = ''function:'' @ fn_filePath func @ '':'' @ fn_name func,
                       n_label = fn_name func, n_type = Function, n_filePath = fn_filePath func,
                       n_line = Some (fn_line func), n_column = Some (fn_column func),
                       n_parentId = Some (''file:'' @ fn_filePath func),
                       n_metadata = FunctionMetadata (fn_isExported func) (fn_isAsync func)
                                      (fn_parameters func) (fn_returnType func)\<rparr>"
    using b_function(1) by (auto simp: nodeShape_def)
  then show ?case using b_function(2) by (simp add: createFunctionNode_eq nodesShaped_put)
next
  case (b_class cls s)
  have "nodeShape ar \<lparr>n_id = ''class:'' @ cls_filePath cls @ '':'' @ cls_name cls,
                       n_label = cls_name cls, n_type = Class, n_filePath = cls_filePath cls,
                       n_line = Some (cls_line cls), n_column = Some (cls_column cls),
                       n_parentId = Some (''file:'' @ cls_filePath cls),
                       n_metadata = ClassMetadata (cls_isExported cls) (cls_extends cls)
                                      (cls_implements cls)\<rparr>"
    using b_class(1) by (auto simp: nodeShape_def)
  then show ?case using b_class(2) by (simp add: createClassNode_eq nodesShaped_put)
next
  case (b_method cls mth s)
  have "nodeShape ar \<lparr>n_id = ''method:'' @ m_filePath mth @ '':'' @ cls_name cls @ ''.''
                              @ m_name mth,
                     n_label = cls_name cls @ ''.'' @ m_name mth, n_type = Method,
                     n_filePath = m_filePath mth,
                     n_line = Some (m_line mth), n_column = Some (m_column mth),
                     n_parentId = Some (''class:'' @ m_filePath mth @ '':'' @ cls_name cls),
                     n_metadata = MethodMetadata (m_isPublic mth) (m_isStatic mth)
                                    (m_isAsync mth) (m_parameters mth)
                                    (m_returnType mth)\<rparr>"
    using b_method(1,2) by (auto simp: nodeShape_def)
  then show ?case using b_method(3) by (simp add: createMethodNode_eq nodesShaped_put)
qed simp_all

lemma map_of_addEdge:
  "map_of (edgeMap (addEdge e s)) k = Some e' \<Longrightarrow> map_of (edgeMap s) k = Some e' \<or> e' = e"
  by (auto simp: addEdge_def update_conv' split: if_splits)

lemma edgesShaped_node_step:
  assumes "edgesShaped s" "edgeMap s' = edgeMap s"
    and "\<And>k m. map_of (nodeMap s) k = Some m \<Longrightarrow> map_of (nodeMap s') k = Some m"
  shows "edgesShaped s'"
  unfolding edgesShaped_def
proof (intro allI impI)
  fix k e assume "map_of (edgeMap s') k = Some e"
  then have e: "map_of (edgeMap s) k = Some e" using assms(2) by simp
  then have t: "e_type e \<in> {Import, Call, Extends, Implements} \<and> e_id e = edgeKey e"
    using assms(1) unfolding edgesShaped_def by blast
  have "\<exists>ns nt. map_of (nodeMap s') (e_source e) = Some ns
                \<and> map_of (nodeMap s') (e_target e) = Some nt
                \<and> n_type ns = Function \<and> n_filePath ns = n_filePath nt" if c: "e_type e = Call"
  proof -
    have "\<exists>ns nt. map_of (nodeMap s) (e_source e) = Some ns
                \<and> map_of (nodeMap s) (e_target e) = Some nt
                \<and> n_type ns = Function \<and> n_filePath ns = n_filePath nt"
      using assms(1) e c unfolding edgesShaped_def by blast
    then obtain ns nt where "map_of (nodeMap s) (e_source e) = Some ns"
      "map_of (nodeMap s) (e_target e) = Some nt" "n_type ns = Function"
      "n_filePath ns = n_filePath nt"
      by blast
    then show ?thesis using assms(3) by blast
  qed
  then show "e_type e \<in> {Import, Call, Extends, Implements} \<and> e_id e = edgeKey e
        \<and> (e_type e = Call \<longrightarrow>
             (\<exists>ns nt. map_of (nodeMap s') (e_source e) = Some ns
                      \<and> map_of (nodeMap s') (e_target e) = Some nt
                      \<and> n_type ns = Function \<and> n_filePath ns = n_filePath nt))"
    using t by blast
qed

lemma edgesShaped_addEdge:
  assumes "edgesShaped s" "e_type e \<in> {Import, Call, Extends, Implements}" "e_id e = edgeKey e"
    and "e_type e = Call \<Longrightarrow>
           \<exists>ns nt. map_of (nodeMap s) (e_source e) = Some ns
                  \<and> map_of (nodeMap s) (e_target e) = Some nt
                  \<and> n_type ns = Function \<and> n_filePath ns = n_filePath nt"
  shows "edgesShaped (addEdge e s)"
  unfolding edgesShaped_def
proof (intro allI impI)
  fix k e' assume "map_of (edgeMap (addEdge e s)) k = Some e'"
  then consider "map_of (edgeMap s) k = Some e'" | "e' = e" using map_of_addEdge by blast
  then show "e_type e' \<in> {Import, Call, Extends, Implements} \<and> e_id e' = edgeKey e'
        \<and> (e_type e' = Call \<longrightarrow>
             (\<exists>ns nt. map_of (nodeMap (addEdge e s)) (e_source e') = Some ns
                      \<and> map_of (nodeMap (addEdge e s)) (e_target e') = Some nt
                      \<and> n_type ns = Function \<and> n_filePath ns = n_filePath nt))"
  proof cases
    case 1
    then show ?thesis using assms(1) unfolding edgesShaped_def by simp
  next
    case 2
    then show ?thesis using assms(2,3,4) by simp
  qed
qed

lemma findCallerNode_props:
  assumes "stateInv s" "findCallerNode node s = Some c"
  shows "\<exists>nc. map_of (nodeMap s) c = Some nc \<and> n_type nc = Function
              \<and> n_filePath nc = n_filePath node"
proof -
  have m: "c \<in> set (fileNodesOf s (n_filePath node))" using assms(2) by (rule findCallerNode_mem)
  have "case map_of (nodeMap s) c of None \<Rightarrow> False | Some n \<Rightarrow> n_type n = Function"
    using assms(2) find_Some_set unfolding findCallerNode_def by fast
  then obtain nc where nc: "map_of (nodeMap s) c = Some nc" "n_type nc = Function"
    by (auto split: option.splits)
  from fileNodesOf_mem[OF assms(1) m] nc show ?thesis by auto
qed

lemma builds_edgesShaped:
  "builds ar s s' \<Longrightarrow> edgesShaped s \<Longrightarrow> edgesShaped s'"
proof (induction rule: builds.induct)
  case (b_file s fp)
  show ?case using b_file(1) by (rule edgesShaped_node_step[of s]) (simp_all add: create_keeps)
next
  case (b_function func s)
  show ?case using b_function(2)
    by (rule edgesShaped_node_step[of s]) (simp_all add: create_keeps)
next
  case (b_class cls s)
  show ?case using b_class(2) by (rule edgesShaped_node_step[of s]) (simp_all add: create_keeps)
next
  case (b_method cls mth s)
  show ?case using b_method(3)
    by (rule edgesShaped_node_step[of s]) (simp_all add: create_keeps)
next
  case (b_import src s tgt importInfo importName)
  show ?case using b_import(3)
    by (rule edgesShaped_addEdge) (simp_all add: importEdge_def edgeKey_def)
next
  case (b_call s nodeId node callerNodeId)
  from findCallerNode_props[OF b_call(1,3)] b_call(2)
  have "\<exists>ns nt. map_of (nodeMap s) callerNodeId = Some ns \<and> map_of (nodeMap s) nodeId = Some nt
                \<and> n_type ns = Function \<and> n_filePath ns = n_filePath nt"
    by auto
  then show ?case using b_call(4)
    by (intro edgesShaped_addEdge[of s]) (simp_all add: callEdge_def edgeKey_def)
next
  case (b_extends c s t)
  show ?case using b_extends(3)
    by (rule edgesShaped_addEdge) (simp_all add: extendsEdge_def edgeKey_def)
next
  case (b_implements c s t)
  show ?case using b_implements(3)
    by (rule edgesShaped_addEdge) (simp_all add: implementsEdge_def edgeKey_def)
qed simp_all

lemma shaped_cleared: "nodesShaped ar (clearState s)" "edgesShaped (clearState s)"
  by (simp_all add: nodesShaped_def edgesShaped_def clearState_def)

lemma inheritanceCreated_shaped:
  "nodesShaped ar (inheritanceCreated s analyzer ar)" "edgesShaped (inheritanceCreated s analyzer ar)"
  using builds_nodesShaped[OF builds_inheritanceCreated shaped_cleared(1)]
        builds_edgesShaped[OF builds_inheritanceCreated shaped_cleared(2)]
  by simp_all

section \<open>Counting colons: edge keys determine their two ids\<close>

definition colons :: "string \<Rightarrow> nat" where
  "colons s = length (filter (\<lambda>c. c = CHR '':'') s)"

lemma colons_simps [simp]:
  "colons [] = 0" "colons (a @ b) = colons a + colons b"
  "colons (c # s) = (if c = CHR '':'' then 1 else 0) + colons s"
  by (simp_all add: colons_def)

lemma colons_free: "CHR '':'' \<notin> set s \<Longrightarrow> colons s = 0"
  by (induction s) auto

lemma split_at_colon:
  assumes "a @ CHR '':'' # r = b @ CHR '':'' # r'" "colons a = colons b"
  shows "a = b \<and> r = r'"
proof -
  from assms(1) consider us where "a = b @ us" "us @ CHR '':'' # r = CHR '':'' # r'"
    | us where "a @ us = b" "CHR '':'' # r = us @ CHR '':'' # r'"
    by (auto simp: append_eq_append_conv2)
  then show ?thesis
  proof cases
    case 1
    show ?thesis
    proof (cases us)
      case Nil
      then show ?thesis using 1 by simp
    next
      case (Cons u us')
      then have "u = CHR '':''" using 1(2) by simp
      then have "colons a = colons b + 1 + colons us'" using 1(1) Cons by simp
      then show ?thesis using assms(2) by simp
    qed
  next
    case 2
    show ?thesis
    proof (cases us)
      case Nil
      then show ?thesis using 2 by simp
    next
      case (Cons u us')
      then have "u = CHR '':''" using 2(2) by simp
      then have "colons b = colons a + 1 + colons us'" using 2(1) Cons by auto
      then show ?thesis using assms(2) by simp
    qed
  qed
qed

text \<open>Declaration names as the analyzer records them: identifiers, so without a colon.\<close>

definition identifierNames :: "AnalysisResult \<Rightarrow> bool" where
  "identifierNames ar =
     ((\<forall>f \<in> set (ar_functions ar). CHR '':'' \<notin> set (fn_name f))
      \<and> (\<forall>c \<in> set (ar_classes ar).
            CHR '':'' \<notin> set (cls_name c)
            \<and> (\<forall>m \<in> set (cls_methods c). CHR '':'' \<notin> set (m_name m))))"

lemma shape_colons:
  assumes "identifierNames ar" "nodeShape ar n"
  shows "colons (n_id n) = colons (n_filePath n) + (if n_type n = File then 1 else 2)"
    and "n_parentId n = Some p \<Longrightarrow>
           colons p = colons (n_filePath n) + (if n_type n = Method then 2 else 1)"
  using assms unfolding nodeShape_def identifierNames_def
  by (auto simp: colons_free)

lemma parent_key_inj:
  assumes "identifierNames ar" "nodeShape ar n1" "nodeShape ar n2"
    and "n_parentId n1 = Some p1" "n_parentId n2 = Some p2"
    and "p1 @ '':'' @ n_id n1 = p2 @ '':'' @ n_id n2"
  shows "p1 = p2 \<and> n_id n1 = n_id n2"
proof -
  have nf: "n_type n1 \<noteq> File" "n_type n2 \<noteq> File"
    using assms(2-5) unfolding nodeShape_def by auto
  have c1: "colons (n_id n1) = colons (n_filePath n1) + 2"
    and c2: "colons (n_id n2) = colons (n_filePath n2) + 2"
    using shape_colons(1)[OF assms(1)] assms(2,3) nf by simp_all
  have q1: "colons p1 = colons (n_filePath n1) + (if n_type n1 = Method then 2 else 1)"
    and q2: "colons p2 = colons (n_filePath n2) + (if n_type n2 = Method then 2 else 1)"
    using shape_colons(2)[OF assms(1)] assms(2-5) by simp_all
  have "colons (p1 @ '':'' @ n_id n1) = colons (p2 @ '':'' @ n_id n2)"
    using assms(6) by simp
  then have "colons p1 + colons (n_id n1) = colons p2 + colons (n_id n2)" by simp
  then have "colons p1 = colons p2" using c1 c2 q1 q2 by (auto split: if_splits)
  then show ?thesis using split_at_colon[of p1 "n_id n1" p2 "n_id n2"] assms(6) by simp
qed

section \<open>Containment edges\<close>

lemma parentChild_step_fst:
  "fst (parentChild_step (k, n) acc) =
     (case n_parentId n of
        None \<Rightarrow> fst acc
      | Some p \<Rightarrow> if truthy p \<and> p \<in> nodeIds (fst acc)
                  then addEdge (parentEdge p k) (fst acc) else fst acc)"
  by (cases acc) (auto simp: parentChild_step_def map_has_nodeIds addEdge_def parentEdge_def
                       split: option.splits)

text \<open>The pairs of a stored parent id and the id of a stored node that names it as parent.\<close>

definition childPairs :: "ExtractorState \<Rightarrow> (string \<times> string) set" where
  "childPairs s =
     {(p, k). \<exists>n. map_of (nodeMap s) k = Some n \<and> n_parentId n = Some p \<and> truthy p
                 \<and> p \<in> nodeIds s}"

text \<open>
  While the containment edges are made, every stored edge is an edge that was there
  before, or the containment edge of such a pair.
\<close>

definition containmentInv :: "ExtractorState \<Rightarrow> ExtractorState \<Rightarrow> bool" where
  "containmentInv s0 st =
     (nodeMap st = nodeMap s0
      \<and> (\<forall>k e. map_of (edgeMap st) k = Some e \<longrightarrow>
             map_of (edgeMap s0) k = Some e
             \<or> (\<exists>p c. (p, c) \<in> childPairs s0 \<and> e = parentEdge p c)))"

lemma containmentInv_step:
  assumes "containmentInv s0 (fst acc)" "(k, n) \<in> set (nodeMap s0)" "stateInv s0"
  shows "containmentInv s0 (fst (parentChild_step (k, n) acc))"
proof (cases "n_parentId n")
  case None
  then show ?thesis using assms(1) by (simp add: parentChild_step_fst)
next
  case (Some p)
  show ?thesis
  proof (cases "truthy p \<and> p \<in> nodeIds (fst acc)")
    case False
    then have "fst (parentChild_step (k, n) acc) = fst acc"
      using Some by (auto simp: parentChild_step_fst)
    then show ?thesis using assms(1) by simp
  next
    case True
    have ids: "nodeIds (fst acc) = nodeIds s0"
      using assms(1) by (simp add: containmentInv_def nodeIds_def)
    have "map_of (nodeMap s0) k = Some n"
      using assms(2,3) by (simp add: stateInv_def)
    then have pair: "(p, k) \<in> childPairs s0"
      using Some True ids by (auto simp: childPairs_def)
    have eq: "fst (parentChild_step (k, n) acc) = addEdge (parentEdge p k) (fst acc)"
      using Some True by (simp add: parentChild_step_fst)
    show ?thesis
      unfolding eq containmentInv_def
    proof (intro conjI allI impI)
      show "nodeMap (addEdge (parentEdge p k) (fst acc)) = nodeMap s0"
        using assms(1) by (simp add: containmentInv_def)
    next
      fix k' e assume "map_of (edgeMap (addEdge (parentEdge p k) (fst acc))) k' = Some e"
      then consider "map_of (edgeMap (fst acc)) k' = Some e" | "e = parentEdge p k"
        using map_of_addEdge by blast
      then show "map_of (edgeMap s0) k' = Some e
                 \<or> (\<exists>p c. (p, c) \<in> childPairs s0 \<and> e = parentEdge p c)"
      proof cases
        case 1
        then show ?thesis using assms(1) unfolding containmentInv_def by blast
      next
        case 2
        then show ?thesis using pair by blast
      qed
    qed
  qed
qed

lemma fold_establish:
  assumes step: "\<And>x st. x \<in> A \<Longrightarrow> P st \<Longrightarrow> P (f x st) \<and> Q x (f x st)"
    and keep: "\<And>x y st. x \<in> A \<Longrightarrow> P st \<Longrightarrow> Q y st \<Longrightarrow> Q y (f x st)"
  shows "set xs \<subseteq> A \<Longrightarrow> P s \<Longrightarrow> (\<forall>y \<in> B. Q y s) \<Longrightarrow>
         P (fold f xs s) \<and> (\<forall>y \<in> set xs \<union> B. Q y (fold f xs s))"
proof (induction xs arbitrary: s B)
  case Nil
  then show ?case by simp
next
  case (Cons x xs)
  have x: "x \<in> A" using Cons.prems(1) by simp
  have 1: "P (f x s) \<and> Q x (f x s)" using step[OF x Cons.prems(2)] .
  have 2: "\<forall>y \<in> insert x B. Q y (f x s)"
    using keep[OF x Cons.prems(2)] Cons.prems(3) 1 by blast
  have "P (fold f xs (f x s)) \<and> (\<forall>y \<in> set xs \<union> insert x B. Q y (fold f xs (f x s)))"
    using Cons.prems(1) 1 2 by (intro Cons.IH) simp_all
  then show ?case by simp
qed

lemma map_of_addEdge_keep:
  "map_of (edgeMap s) k = Some e \<Longrightarrow> map_of (edgeMap (addEdge e' s)) k = Some e"
  by (auto simp: addEdge_def update_conv' map_has_def)

lemma map_has_addEdge: "map_has (edgeMap (addEdge e s)) (e_id e)"
  by (auto simp: addEdge_def update_conv' map_has_def)

lemma map_has_addEdge_keep: "map_has (edgeMap s) k \<Longrightarrow> map_has (edgeMap (addEdge e s)) k"
  using map_of_addEdge_keep[of s k _ e] by (auto simp: map_has_def)

text \<open>After the loop, the key of every pair is present.\<close>

lemma containment_run:
  assumes "stateInv s0"
  shows "containmentInv s0 (createParentChildEdges s0)
         \<and> (\<forall>x \<in> set (nodeMap s0).
               \<forall>q. n_parentId (snd x) = Some q \<longrightarrow> truthy q \<longrightarrow> q \<in> nodeIds s0 \<longrightarrow>
                   map_has (edgeMap (createParentChildEdges s0)) (''parent:'' @ q @ '':'' @ fst x))"
proof -
  define Q where "Q = (\<lambda>(x :: string \<times> GraphNode) (acc :: ExtractorState \<times> nat \<times> nat).
      \<forall>q. n_parentId (snd x) = Some q \<longrightarrow> truthy q \<longrightarrow> q \<in> nodeIds s0 \<longrightarrow>
          map_has (edgeMap (fst acc)) (''parent:'' @ q @ '':'' @ fst x))"
  define P where "P = (\<lambda>acc :: ExtractorState \<times> nat \<times> nat. containmentInv s0 (fst acc))"
  have step: "P (parentChild_step x acc) \<and> Q x (parentChild_step x acc)"
    if "x \<in> set (nodeMap s0)" "P acc" for x acc
  proof -
    obtain k n where x: "x = (k, n)" by (cases x)
    have p: "P (parentChild_step x acc)"
      using containmentInv_step[OF _ _ assms(1), of acc k n] that unfolding P_def x by simp
    have ids: "nodeIds (fst acc) = nodeIds s0"
      using that(2) by (simp add: P_def containmentInv_def nodeIds_def)
    have "Q x (parentChild_step x acc)"
      unfolding Q_def x
      using map_has_addEdge[of "parentEdge _ k" "fst acc"] ids
      by (auto simp: parentChild_step_fst parentEdge_def)
    then show ?thesis using p by simp
  qed
  have keep: "Q y (parentChild_step x acc)" if "Q y acc" for x y acc
  proof -
    obtain k n where x: "x = (k, n)" by (cases x)
    show ?thesis
      using that unfolding Q_def x
      by (auto simp: parentChild_step_fst map_has_addEdge_keep split: option.splits)
  qed
  have P0: "P (s0, 0, 0)" by (simp add: P_def containmentInv_def)
  have res: "P (parentChildRun s0) \<and> (\<forall>y \<in> set (nodeMap s0) \<union> {}. Q y (parentChildRun s0))"
    unfolding parentChildRun_def
    by (rule fold_establish[where A = "set (nodeMap s0)" and P = P and Q = Q])
       (simp_all add: step keep P0)
  then show ?thesis by (simp add: P_def Q_def createParentChildEdges_def)
qed

lemma containment_keys_present:
  assumes "stateInv s0" "(p, c) \<in> childPairs s0"
  shows "map_has (edgeMap (createParentChildEdges s0)) (''parent:'' @ p @ '':'' @ c)"
proof -
  obtain n where n: "map_of (nodeMap s0) c = Some n" "n_parentId n = Some p" "truthy p"
    "p \<in> nodeIds s0"
    using assms(2) by (auto simp: childPairs_def)
  then have "(c, n) \<in> set (nodeMap s0)" by (simp add: map_of_SomeD)
  then show ?thesis using containment_run[OF assms(1)] n by fastforce
qed

lemma edgeKey_not_parent:
  "e_type e \<in> {Import, Call, Extends, Implements} \<Longrightarrow> edgeKey e \<noteq> ''parent:'' @ x"
  by (auto simp: edgeKey_def)

lemma distinct_filter_one:
  "distinct xs \<Longrightarrow> x \<in> set xs \<Longrightarrow> filter (\<lambda>y. y = x) xs = [x]"
proof (induction xs)
  case Nil
  then show ?case by simp
next
  case (Cons a xs)
  show ?case
  proof (cases "a = x")
    case True
    then have "x \<notin> set xs" using Cons.prems(1) by simp
    then have "filter (\<lambda>y. y = x) xs = []" by (auto simp: filter_empty_conv)
    then show ?thesis using True by simp
  next
    case False
    then show ?thesis using Cons by auto
  qed
qed

lemma graphOf_edges_distinct: "stateInv s \<Longrightarrow> distinct (edges (graphOf s))"
proof -
  assume i: "stateInv s"
  have "distinct (map e_id (edges (graphOf s)))"
    using graphOf_map_edge_ids[OF i] i by (simp add: stateInv_def)
  then show ?thesis by (simp add: distinct_map)
qed

lemma stateInv_distinct:
  "stateInv s \<Longrightarrow> distinct (map fst (nodeMap s))" "stateInv s \<Longrightarrow> distinct (map fst (edgeMap s))"
  by (simp_all add: stateInv_def)

lemma stateInv_node_id: "stateInv s \<Longrightarrow> map_of (nodeMap s) k = Some n \<Longrightarrow> n_id n = k"
  unfolding stateInv_def by blast

lemma graphOf_edge_stored:
  assumes "stateInv s"
  shows "e \<in> set (edges (graphOf s)) \<longleftrightarrow> (\<exists>k. map_of (edgeMap s) k = Some e)"
proof
  assume "e \<in> set (edges (graphOf s))"
  then obtain k where "(k, e) \<in> set (edgeMap s)" by (auto simp: graphOf_def)
  then have "map_of (edgeMap s) k = Some e"
    by (rule map_of_is_SomeI[OF stateInv_distinct(2)[OF assms]])
  then show "\<exists>k. map_of (edgeMap s) k = Some e" by blast
next
  assume "\<exists>k. map_of (edgeMap s) k = Some e"
  then obtain k where "map_of (edgeMap s) k = Some e" by blast
  then have "(k, e) \<in> set (edgeMap s)" by (rule map_of_SomeD)
  then show "e \<in> set (edges (graphOf s))" by (force simp: graphOf_def)
qed

lemma graphOf_node_stored:
  assumes "stateInv s"
  shows "n \<in> set (nodes (graphOf s)) \<longleftrightarrow> map_of (nodeMap s) (n_id n) = Some n"
proof
  assume "n \<in> set (nodes (graphOf s))"
  then obtain k where "(k, n) \<in> set (nodeMap s)" by (auto simp: graphOf_def)
  then have m: "map_of (nodeMap s) k = Some n"
    by (rule map_of_is_SomeI[OF stateInv_distinct(1)[OF assms]])
  then have "n_id n = k" by (rule stateInv_node_id[OF assms])
  then show "map_of (nodeMap s) (n_id n) = Some n" using m by simp
next
  assume "map_of (nodeMap s) (n_id n) = Some n"
  then have "(n_id n, n) \<in> set (nodeMap s)" by (rule map_of_SomeD)
  then show "n \<in> set (nodes (graphOf s))" by (force simp: graphOf_def)
qed

text \<open>The containment edges from \<open>p\<close> to \<open>c\<close> in a graph.\<close>

definition containsEdges :: "GraphData \<Rightarrow> string \<Rightarrow> string \<Rightarrow> GraphEdge list" where
  "containsEdges g p c =
     filter (\<lambda>e. e_type e = Reference \<and> e_label e = Some ''contains''
                 \<and> e_source e = p \<and> e_target e = c) (edges g)"

lemma built_containment:
  assumes names: "P \<in> n_id ` set (nodes (graphOf (buildGraph s analyzer ar))) \<Longrightarrow> identifierNames ar"
    and N: "N \<in> set (nodes (graphOf (buildGraph s analyzer ar)))"
    and par: "n_parentId N = Some P"
  shows "containsEdges (graphOf (buildGraph s analyzer ar)) P (n_id N)
           = (if P \<in> n_id ` set (nodes (graphOf (buildGraph s analyzer ar)))
              then [parentEdge P (n_id N)] else [])"
proof -
  define S7 where "S7 = inheritanceCreated s analyzer ar"
  define S8 where "S8 = buildGraph s analyzer ar"
  have S8: "S8 = createParentChildEdges S7" by (simp add: S8_def S7_def buildGraph_stages)
  have i7: "stateInv S7" using inheritanceCreated_props by (simp add: S7_def)
  have i8: "stateInv S8" by (simp add: S8_def inv_buildGraph)
  have ns: "nodesShaped ar S7" and es: "edgesShaped S7"
    using inheritanceCreated_shaped by (simp_all add: S7_def)
  have nm: "nodeMap S8 = nodeMap S7" by (simp add: S8)
  have ids: "n_id ` set (nodes (graphOf S8)) = nodeIds S7"
    using graphOf_node_ids[OF i8] nm by (simp add: nodeIds_def)
  have cinv: "containmentInv S7 S8"
    using containment_run[OF i7] by (simp add: S8)
  have Nst: "map_of (nodeMap S7) (n_id N) = Some N"
    using N graphOf_node_stored[OF i8] nm by (simp add: S8_def)
  have Nshape: "nodeShape ar N" using ns Nst unfolding nodesShaped_def by blast
  have tP: "truthy P" using Nshape par by (auto simp: nodeShape_def truthy_def)
  text \<open>Every containment edge of the graph from \<open>P\<close> to \<open>N\<close> is this one edge.\<close>
  have only: "e = parentEdge P (n_id N) \<and> P \<in> nodeIds S7"
    if e: "e \<in> set (edges (graphOf S8))" "e_type e = Reference" "e_source e = P"
      "e_target e = n_id N" for e
  proof -
    obtain k where k: "map_of (edgeMap S8) k = Some e"
      using e(1) graphOf_edge_stored[OF i8] by blast
    then consider "map_of (edgeMap S7) k = Some e"
      | p c where "(p, c) \<in> childPairs S7" "e = parentEdge p c"
      using cinv unfolding containmentInv_def by blast
    then show ?thesis
    proof cases
      case 1
      then have "e_type e \<in> {Import, Call, Extends, Implements}"
        using es unfolding edgesShaped_def by blast
      then show ?thesis using e(2) by simp
    next
      case 2
      then have "p = P" "c = n_id N" using e(3,4) by (simp_all add: parentEdge_def)
      then show ?thesis using 2 by (auto simp: childPairs_def)
    qed
  qed
  show ?thesis
  proof (cases "P \<in> nodeIds S7")
    case False
    have "containsEdges (graphOf S8) P (n_id N) = []"
      unfolding containsEdges_def filter_empty_conv using only False by blast
    then show ?thesis using False ids by (simp add: S8_def)
  next
    case True
    then have names': "identifierNames ar" using names ids by (simp add: S8_def)
    from True have pair: "(P, n_id N) \<in> childPairs S7"
      using Nst par tP by (auto simp: childPairs_def)
    from containment_keys_present[OF i7 pair]
    obtain e0 where e0: "map_of (edgeMap S8) (''parent:'' @ P @ '':'' @ n_id N) = Some e0"
      by (auto simp: S8 map_has_def)
    have id0: "e_id e0 = ''parent:'' @ P @ '':'' @ n_id N"
      using i8 e0 unfolding stateInv_def by blast
    consider "map_of (edgeMap S7) (''parent:'' @ P @ '':'' @ n_id N) = Some e0"
      | p c where "(p, c) \<in> childPairs S7" "e0 = parentEdge p c"
      using cinv e0 unfolding containmentInv_def by blast
    then have e0eq: "e0 = parentEdge P (n_id N)"
    proof cases
      case 1
      then have "e_type e0 \<in> {Import, Call, Extends, Implements}" "e_id e0 = edgeKey e0"
        using es unfolding edgesShaped_def by blast+
      then show ?thesis using id0 edgeKey_not_parent[of e0 "P @ '':'' @ n_id N"] by simp
    next
      case 2
      then obtain n where n: "map_of (nodeMap S7) c = Some n" "n_parentId n = Some p"
        by (auto simp: childPairs_def)
      have idn: "n_id n = c" using i7 n(1) unfolding stateInv_def by blast
      have sh: "nodeShape ar n" using ns n(1) unfolding nodesShaped_def by blast
      have "p @ '':'' @ n_id n = P @ '':'' @ n_id N"
        using id0 2(2) idn by (simp add: parentEdge_def)
      from parent_key_inj[OF names' sh Nshape n(2) par this]
      show ?thesis using 2(2) idn by simp
    qed
    have mem: "parentEdge P (n_id N) \<in> set (edges (graphOf S8))"
      using e0 e0eq graphOf_edge_stored[OF i8] by blast
    have "containsEdges (graphOf S8) P (n_id N)
            = filter (\<lambda>e. e = parentEdge P (n_id N)) (edges (graphOf S8))"
      unfolding containsEdges_def
    proof (rule filter_cong[OF refl])
      fix e assume "e \<in> set (edges (graphOf S8))"
      then show "(e_type e = Reference \<and> e_label e = Some ''contains''
                 \<and> e_source e = P \<and> e_target e = n_id N) = (e = parentEdge P (n_id N))"
        using only[of e] by (auto simp: parentEdge_def)
    qed
    also have "\<dots> = [parentEdge P (n_id N)]"
      by (rule distinct_filter_one[OF graphOf_edges_distinct[OF i8] mem])
    finally show ?thesis using True ids by (simp add: S8_def)
  qed
qed


text \<open>The counter of skipped nodes counts the nodes whose parent id is not stored.\<close>

lemma parentChild_step_skipped:
  assumes "nodeMap (fst acc) = nodeMap s0"
  shows "snd (snd (parentChild_step (k, n) acc)) =
           snd (snd acc) + (case n_parentId n of
                              None \<Rightarrow> 0
                            | Some p \<Rightarrow> if truthy p \<and> p \<notin> nodeIds s0 then 1 else 0)"
proof -
  have "nodeIds (fst acc) = nodeIds s0" using assms by (simp add: nodeIds_def)
  then show ?thesis
    by (cases acc) (auto simp: parentChild_step_def map_has_nodeIds split: option.splits)
qed

lemma fold_skipped:
  "nodeMap (fst acc) = nodeMap s0 \<Longrightarrow>
   snd (snd (fold parentChild_step xs acc)) =
     snd (snd acc)
     + length (filter (\<lambda>x. case n_parentId (snd x) of
                               None \<Rightarrow> False
                             | Some p \<Rightarrow> truthy p \<and> p \<notin> nodeIds s0) xs)"
proof (induction xs arbitrary: acc)
  case Nil
  then show ?case by simp
next
  case (Cons x xs)
  obtain k n where x: "x = (k, n)" by (cases x)
  have f: "nodeMap (fst (parentChild_step x acc)) = nodeMap s0"
    using Cons.prems parentChild_step_frame[of x acc] by simp
  show ?case
    using Cons.IH[OF f] parentChild_step_skipped[OF Cons.prems, of k n]
    by (auto simp: x split: option.splits)
qed

definition skippedCount :: "ExtractorState \<Rightarrow> nat" where
  "skippedCount s = snd (snd (parentChildRun s))"

lemma skippedCount_eq:
  "skippedCount s0 =
     length (filter (\<lambda>x. case n_parentId (snd x) of
                            None \<Rightarrow> False
                          | Some p \<Rightarrow> truthy p \<and> p \<notin> nodeIds s0) (nodeMap s0))"
  unfolding skippedCount_def parentChildRun_def using fold_skipped[of "(s0, 0, 0)" s0] by simp

lemma built_skippedCount:
  "skippedCount (inheritanceCreated s analyzer ar) =
     length (filter (\<lambda>n. case n_parentId n of
                            None \<Rightarrow> False
                          | Some p \<Rightarrow> p \<notin> n_id ` set (nodes (graphOf (buildGraph s analyzer ar))))
               (nodes (graphOf (buildGraph s analyzer ar))))"
proof -
  define S7 where "S7 = inheritanceCreated s analyzer ar"
  have i7: "stateInv S7" using inheritanceCreated_props by (simp add: S7_def)
  have ns: "nodesShaped ar S7" using inheritanceCreated_shaped by (simp add: S7_def)
  have nm: "nodeMap (buildGraph s analyzer ar) = nodeMap S7"
    by (simp add: S7_def buildGraph_stages)
  have ids: "n_id ` set (nodes (graphOf (buildGraph s analyzer ar))) = nodeIds S7"
    using graphOf_node_ids[OF inv_buildGraph, of s analyzer ar] nm by (simp add: nodeIds_def)
  have nodes: "nodes (graphOf (buildGraph s analyzer ar)) = map snd (nodeMap S7)"
    using nm by (simp add: graphOf_def)
  have tr: "truthy p" if "x \<in> set (nodeMap S7)" "n_parentId (snd x) = Some p" for x p
  proof -
    obtain k n where x: "x = (k, n)" by (cases x)
    have "map_of (nodeMap S7) k = Some n"
      using that(1) map_of_is_SomeI[OF stateInv_distinct(1)[OF i7]] by (simp add: x)
    then have "nodeShape ar n" using ns unfolding nodesShaped_def by blast
    then show ?thesis using that(2) by (auto simp: x nodeShape_def truthy_def)
  qed
  have "filter (\<lambda>x. case n_parentId (snd x) of None \<Rightarrow> False
                     | Some p \<Rightarrow> truthy p \<and> p \<notin> nodeIds S7) (nodeMap S7)
        = filter (\<lambda>x. case n_parentId (snd x) of None \<Rightarrow> False
                     | Some p \<Rightarrow> p \<notin> nodeIds S7) (nodeMap S7)"
    by (rule filter_cong[OF refl]) (auto split: option.splits dest: tr)
  then have "skippedCount S7 =
      length (filter (\<lambda>x. case n_parentId (snd x) of None \<Rightarrow> False
                          | Some p \<Rightarrow> p \<notin> nodeIds S7) (nodeMap S7))"
    by (simp add: skippedCount_eq)
  also have "\<dots> = length (filter (\<lambda>n. case n_parentId n of None \<Rightarrow> False
                                     | Some p \<Rightarrow> p \<notin> nodeIds S7) (map snd (nodeMap S7)))"
    by (simp add: filter_map comp_def)
  finally have main: "skippedCount S7 =
      length (filter (\<lambda>n. case n_parentId n of None \<Rightarrow> False
                          | Some p \<Rightarrow> p \<notin> nodeIds S7) (map snd (nodeMap S7)))" .
  show ?thesis
    apply (subst ids)
    apply (subst nodes)
    apply (fold S7_def)
    apply (rule main)
    done
qed

text \<open>
  Claim C7.  Let \<open>N\<close> be a node of the built graph with parent id \<open>P\<close>.  If \<open>P\<close> is the id
  of a node of the graph, and the names of the declarations are identifiers, the graph has
  exactly one containment edge from \<open>P\<close> to \<open>N\<close>.  If \<open>P\<close> is not the id of a node, the graph
  has no containment edge from \<open>P\<close> to \<open>N\<close>; the pass goes on, and the counter of skipped
  nodes ends as the number of nodes whose parent id is not the id of a node.
\<close>

theorem containment_edges:
  assumes "N \<in> set (nodes (graphOf (buildGraph s analyzer ar)))" "n_parentId N = Some P"
  shows "(P \<in> n_id ` set (nodes (graphOf (buildGraph s analyzer ar))) \<longrightarrow> identifierNames ar \<longrightarrow>
            containsEdges (graphOf (buildGraph s analyzer ar)) P (n_id N)
              = [parentEdge P (n_id N)])
         \<and> (P \<notin> n_id ` set (nodes (graphOf (buildGraph s analyzer ar))) \<longrightarrow>
              containsEdges (graphOf (buildGraph s analyzer ar)) P (n_id N) = [])
         \<and> skippedCount (inheritanceCreated s analyzer ar) =
             length (filter (\<lambda>n. case n_parentId n of
                                    None \<Rightarrow> False
                                  | Some p \<Rightarrow>
                                      p \<notin> n_id ` set (nodes (graphOf (buildGraph s analyzer ar))))
                       (nodes (graphOf (buildGraph s analyzer ar))))"
proof (intro conjI impI)
  assume "P \<in> n_id ` set (nodes (graphOf (buildGraph s analyzer ar)))" "identifierNames ar"
  then show "containsEdges (graphOf (buildGraph s analyzer ar)) P (n_id N)
               = [parentEdge P (n_id N)]"
    using built_containment[OF _ assms] by simp
next
  assume "P \<notin> n_id ` set (nodes (graphOf (buildGraph s analyzer ar)))"
  then show "containsEdges (graphOf (buildGraph s analyzer ar)) P (n_id N) = []"
    using built_containment[OF _ assms] by simp
next
  show "skippedCount (inheritanceCreated s analyzer ar) =
             length (filter (\<lambda>n. case n_parentId n of
                                    None \<Rightarrow> False
                                  | Some p \<Rightarrow>
                                      p \<notin> n_id ` set (nodes (graphOf (buildGraph s analyzer ar))))
                       (nodes (graphOf (buildGraph s analyzer ar))))"
    by (rule built_skippedCount)
qed

text \<open>A function of a file that is not among the analysed files: its parent id is no node.\<close>

definition orphanFacts :: AnalysisResult where
  "orphanFacts = scenarioA\<lparr>ar_files := [], ar_imports := []\<rparr>"

definition orphanNode :: GraphNode where
  "orphanNode = \<lparr>n_id = ''function:b.ts:foo'', n_label = ''foo'', n_type = Function,
                  n_filePath = ''b.ts'', n_line = Some 1, n_column = Some 1,
                  n_parentId = Some ''file:b.ts'',
                  n_metadata = FunctionMetadata True False [] None\<rparr>"

lemma build_orphanFacts:
  "graphOf (buildGraph cleared noSources orphanFacts) = \<lparr>nodes = [orphanNode], edges = []\<rparr>"
  by code_simp

theorem containment_edges_witness:
  "identifierNames scenarioA
   \<and> nodes graphA ! 2 \<in> set (nodes (graphOf (buildGraph cleared noSources scenarioA)))
   \<and> n_parentId (nodes graphA ! 2) = Some ''file:b.ts''
   \<and> ''file:b.ts'' \<in> n_id ` set (nodes (graphOf (buildGraph cleared noSources scenarioA)))
   \<and> containsEdges (graphOf (buildGraph cleared noSources scenarioA)) ''file:b.ts''
       ''function:b.ts:foo'' = [parentEdge ''file:b.ts'' ''function:b.ts:foo'']
   \<and> orphanNode \<in> set (nodes (graphOf (buildGraph cleared noSources orphanFacts)))
   \<and> n_parentId orphanNode = Some ''file:b.ts''
   \<and> ''file:b.ts'' \<notin> n_id ` set (nodes (graphOf (buildGraph cleared noSources orphanFacts)))
   \<and> containsEdges (graphOf (buildGraph cleared noSources orphanFacts)) ''file:b.ts''
       ''function:b.ts:foo'' = []
   \<and> skippedCount (inheritanceCreated cleared noSources orphanFacts) = 1"
proof -
  have a: "identifierNames scenarioA" by (simp add: identifierNames_def scenarioA_def)
  have b: "nodes graphA ! 2 \<in> set (nodes (graphOf (buildGraph cleared noSources scenarioA)))"
    "n_parentId (nodes graphA ! 2) = Some ''file:b.ts''"
    "''file:b.ts'' \<in> n_id ` set (nodes (graphOf (buildGraph cleared noSources scenarioA)))"
    "n_id (nodes graphA ! 2) = ''function:b.ts:foo''"
    unfolding build_scenarioA by (simp_all add: graphA_def)
  have c: "orphanNode \<in> set (nodes (graphOf (buildGraph cleared noSources orphanFacts)))"
    "n_parentId orphanNode = Some ''file:b.ts''"
    "''file:b.ts'' \<notin> n_id ` set (nodes (graphOf (buildGraph cleared noSources orphanFacts)))"
    "n_id orphanNode = ''function:b.ts:foo''"
    unfolding build_orphanFacts by (simp_all add: orphanNode_def)
  have 1: "containsEdges (graphOf (buildGraph cleared noSources scenarioA)) ''file:b.ts''
             ''function:b.ts:foo'' = [parentEdge ''file:b.ts'' ''function:b.ts:foo'']"
    using containment_edges[OF b(1,2)] a b(3,4) by simp
  have 2: "containsEdges (graphOf (buildGraph cleared noSources orphanFacts)) ''file:b.ts''
             ''function:b.ts:foo'' = []
           \<and> skippedCount (inheritanceCreated cleared noSources orphanFacts) = 1"
    using containment_edges[OF c(1,2)] c(3,4) by (simp add: build_orphanFacts orphanNode_def)
  show ?thesis using a b(1-3) c(1-3) 1 2 by simp
qed

section \<open>Call edges: the keys created by the call pass\<close>


















lemma built_nodeShape:
  "map_of (nodeMap (buildGraph s analyzer ar)) k = Some n \<Longrightarrow> nodeShape ar n"
  using inheritanceCreated_shaped(1)[of ar s analyzer]
  unfolding nodesShaped_def by (simp add: buildGraph_stages)


section \<open>Call edges\<close>











section \<open>What the expansion and the file closure collect\<close>

text \<open>
  One step of the expansion only adds ids, and every id it adds to the related ids is also
  queued.
\<close>

definition grows :: "string list \<times> string list \<Rightarrow> string list \<times> string list \<Rightarrow> bool" where
  "grows acc acc' =
     (set (fst acc) \<subseteq> set (fst acc') \<and> set (snd acc) \<subseteq> set (snd acc')
      \<and> set (snd acc') \<subseteq> set (snd acc) \<union> set (fst acc'))"

lemma grows_refl: "grows acc acc"
  by (simp add: grows_def)

lemma grows_trans: "grows a b \<Longrightarrow> grows b c \<Longrightarrow> grows a c"
  unfolding grows_def by blast

lemma visitNeighbour_grows: "grows acc (visitNeighbour g pr other acc)"
  by (cases acc)
     (auto simp: grows_def visitNeighbour_def Let_def set_set_add split: option.splits)

lemma visitEdge_grows: "grows acc (visitEdge g cur pr e acc)"
proof -
  have a: "grows acc (visitNeighbour g pr x acc)" for x by (rule visitNeighbour_grows)
  have b: "grows acc (visitNeighbour g pr y (visitNeighbour g pr x acc))" for x y
    by (rule grows_trans[OF visitNeighbour_grows visitNeighbour_grows])
  show ?thesis
    unfolding visitEdge_def Let_def
    using a b grows_refl by (cases "e_source e = cur"; cases "e_target e = cur") simp_all
qed

lemma fold_visitEdge_grows: "grows acc (fold (visitEdge g cur pr) es acc)"
proof (induction es arbitrary: acc)
  case Nil
  then show ?case by (simp add: grows_refl)
next
  case (Cons e es)
  show ?case using grows_trans[OF visitEdge_grows Cons.IH] by simp
qed

lemma visitNode_grows: "grows acc (visitNode g cur pr acc)"
proof -
  obtain tp rel where f: "fold (visitEdge g cur pr) (edges g) acc = (tp, rel)"
    by (cases "fold (visitEdge g cur pr) (edges g) acc")
  have a: "grows acc (tp, rel)" using fold_visitEdge_grows[of acc g cur pr "edges g"] f by simp
  have b: "grows (tp, rel) (set_add p tp, rel)" for p
    by (auto simp: grows_def set_set_add)
  show ?thesis
    using a grows_trans[OF a b] f by (auto simp: visitNode_def split: option.splits)
qed

lemma visitNode_parent:
  assumes "findNode g cur = Some node" "n_parentId node = Some p" "truthy p"
  shows "p \<in> set pr \<union> set (fst (visitNode g cur pr acc))"
proof -
  obtain tp rel where f: "fold (visitEdge g cur pr) (edges g) acc = (tp, rel)"
    by (cases "fold (visitEdge g cur pr) (edges g) acc")
  show ?thesis using assms f by (auto simp: visitNode_def set_set_add)
qed

definition bfsInv :: "GraphData \<Rightarrow> string list \<Rightarrow> string list \<Rightarrow> string list \<Rightarrow> bool" where
  "bfsInv g tp pr rel =
     (set pr \<subseteq> set rel \<and> set rel \<subseteq> set pr \<union> set tp
      \<and> (\<forall>x \<in> set pr. \<forall>node p. findNode g x = Some node \<longrightarrow> n_parentId node = Some p \<longrightarrow>
             truthy p \<longrightarrow> p \<in> set pr \<union> set tp))"

definition parentClosed :: "GraphData \<Rightarrow> string list \<Rightarrow> bool" where
  "parentClosed g rel =
     (\<forall>x \<in> set rel. \<forall>node p. findNode g x = Some node \<longrightarrow> n_parentId node = Some p \<longrightarrow>
        truthy p \<longrightarrow> p \<in> set rel)"

lemma bfsInv_step:
  assumes i: "bfsInv g (cur # rest) pr rel" and n: "cur \<notin> set pr"
    and v: "visitNode g cur (pr @ [cur]) (rest, set_add cur rel) = (tp', rel')"
  shows "bfsInv g tp' (pr @ [cur]) rel'" "set rel \<subseteq> set rel'"
proof -
  have g: "grows (rest, set_add cur rel) (tp', rel')"
    using visitNode_grows[of "(rest, set_add cur rel)" g cur "pr @ [cur]"] v by simp
  then have r: "set rest \<subseteq> set tp'" and s: "insert cur (set rel) \<subseteq> set rel'"
    and t: "set rel' \<subseteq> insert cur (set rel) \<union> set tp'"
    by (simp_all add: grows_def set_set_add)
  show "set rel \<subseteq> set rel'" using s by blast
  have a: "set (pr @ [cur]) \<subseteq> set rel'" using i s unfolding bfsInv_def by auto
  have b: "set rel' \<subseteq> set (pr @ [cur]) \<union> set tp'"
    using i t r unfolding bfsInv_def by auto
  have c: "p \<in> set (pr @ [cur]) \<union> set tp'"
    if "x \<in> set (pr @ [cur])" "findNode g x = Some node" "n_parentId node = Some p" "truthy p"
    for x node p
  proof (cases "x = cur")
    case True
    then show ?thesis
      using visitNode_parent[OF that(2)[unfolded True] that(3,4), of "pr @ [cur]"
                               "(rest, set_add cur rel)"] v by simp
  next
    case False
    then have "x \<in> set pr" using that(1) by simp
    then have "p \<in> set pr \<union> set (cur # rest)"
      using i that(2-4) unfolding bfsInv_def by blast
    then show ?thesis using r by auto
  qed
  show "bfsInv g tp' (pr @ [cur]) rel'"
    unfolding bfsInv_def using a b c by blast
qed

lemma bfs_closed:
  "bfsInv g tp pr rel \<Longrightarrow>
   set rel \<subseteq> set (bfs g tp pr rel) \<and> parentClosed g (bfs g tp pr rel)"
proof (induction g tp pr rel rule: bfs.induct)
  case (1 g pr rel)
  then have "set rel = set pr" unfolding bfsInv_def by auto
  then show ?case using 1 unfolding bfsInv_def parentClosed_def by auto
next
  case (2 g cur rest pr rel)
  show ?case
  proof (cases "cur \<in> set pr")
    case True
    have "bfsInv g rest pr rel"
      using "2.prems" True unfolding bfsInv_def by auto
    then show ?thesis using "2.IH"(1)[OF True] True by simp
  next
    case False
    obtain tp' rel' where v: "visitNode g cur (pr @ [cur]) (rest, set_add cur rel) = (tp', rel')"
      by (cases "visitNode g cur (pr @ [cur]) (rest, set_add cur rel)")
    note st = bfsInv_step[OF "2.prems" False v]
    have "set rel' \<subseteq> set (bfs g tp' (pr @ [cur]) rel')
          \<and> parentClosed g (bfs g tp' (pr @ [cur]) rel')"
      using "2.IH"(2)[OF False v[symmetric] st(1)] .
    then show ?thesis using False v st(2) by auto
  qed
qed

lemma bfs_seeds_closed:
  "set rel \<subseteq> set (bfs g rel [] rel) \<and> parentClosed g (bfs g rel [] rel)"
  by (rule bfs_closed) (simp add: bfsInv_def)

text \<open>The file closure adds, for every related id of a file node, the nodes of its file.\<close>

lemma fold_add_children:
  "set (fold (\<lambda>childNode r'. if P childNode then set_add (n_id childNode) r' else r') ns r)
     = set r \<union> n_id ` {c \<in> set ns. P c}"
  by (induction ns arbitrary: r) (auto simp: set_set_add)

definition fileChildren :: "GraphData \<Rightarrow> string \<Rightarrow> string set" where
  "fileChildren g nodeId =
     (case findNode g nodeId of
        None \<Rightarrow> {}
      | Some node \<Rightarrow>
          if n_type node = File
          then n_id ` {c \<in> set (nodes g). n_filePath c = n_filePath node \<and> n_id c \<noteq> nodeId}
          else {})"

lemma fileClosure_fold:
  "set (fold (\<lambda>nodeId r.
             case findNode g nodeId of
               None \<Rightarrow> r
             | Some node \<Rightarrow>
                 if n_type node = File
                 then fold (\<lambda>childNode r'.
                              if n_filePath childNode = n_filePath node \<and> n_id childNode \<noteq> nodeId
                              then set_add (n_id childNode) r' else r')
                        (nodes g) r
                 else r) xs r)
   = set r \<union> (\<Union>x \<in> set xs. fileChildren g x)"
proof (induction xs arbitrary: r)
  case Nil
  then show ?case by simp
next
  case (Cons x xs)
  show ?case
    by (simp add: Cons.IH fold_add_children fileChildren_def Un_assoc split: option.splits)
qed

lemma set_fileClosure:
  "set (fileClosure g rel) = set rel \<union> (\<Union>x \<in> set rel. fileChildren g x)"
  unfolding fileClosure_def by (rule fileClosure_fold)

lemma fileClosure_file:
  assumes "fid \<in> set rel" "findNode g fid = Some fnode" "n_type fnode = File"
    "M \<in> set (nodes g)" "n_filePath M = n_filePath fnode"
  shows "n_id M \<in> set (fileClosure g rel)"
proof (cases "n_id M = fid")
  case True
  then show ?thesis using assms(1) by (simp add: set_fileClosure)
next
  case False
  then have "n_id M \<in> fileChildren g fid"
    using assms(2-5) by (auto simp: fileChildren_def)
  then show ?thesis using assms(1) by (auto simp: set_fileClosure)
qed

lemma fileClosure_cases:
  assumes "x \<in> set (fileClosure g rel)"
  shows "x \<in> set rel
         \<or> (\<exists>fid \<in> set rel. \<exists>fnode M. findNode g fid = Some fnode \<and> n_type fnode = File
               \<and> M \<in> set (nodes g) \<and> n_id M = x \<and> n_filePath M = n_filePath fnode)"
  using assms unfolding set_fileClosure fileChildren_def
  by (auto split: option.splits if_splits)

section \<open>The nodes of a built graph and their file nodes\<close>

lemma find_map_of:
  "\<forall>(k', n) \<in> set xs. n_id n = k' \<Longrightarrow> find (\<lambda>n. n_id n = k) (map snd xs) = map_of xs k"
  by (induction xs) auto

lemma findNode_graphOf:
  assumes "stateInv s"
  shows "findNode (graphOf s) k = map_of (nodeMap s) k"
proof -
  have "n_id n = k'" if "(k', n) \<in> set (nodeMap s)" for k' n
    using stateInv_node_id[OF assms map_of_is_SomeI[OF stateInv_distinct(1)[OF assms] that]] .
  then have "\<forall>(k', n) \<in> set (nodeMap s). n_id n = k'" by blast
  then show ?thesis by (simp add: findNode_def graphOf_def find_map_of)
qed

lemma createFileNode_has: "''file:'' @ fp \<in> nodeIds (createFileNode fp s)"
  by (auto simp: createFileNode_eq nodeIds_putNode)

lemma fold_createFileNode_has:
  "f \<in> set fs \<Longrightarrow>
   ''file:'' @ path f \<in> nodeIds (fold (\<lambda>file. createFileNode (path file)) fs s)"
proof (induction fs arbitrary: s)
  case Nil
  then show ?case by simp
next
  case (Cons a fs)
  show ?case
  proof (cases "f = a")
    case True
    have "nodeIds (createFileNode (path a) s)
            \<subseteq> nodeIds (fold (\<lambda>file. createFileNode (path file)) fs (createFileNode (path a) s))"
      by (rule fold_nodeIds_mono) (rule nodeIds_createFileNode)
    then show ?thesis using createFileNode_has[of "path a" s] True by auto
  next
    case False
    then show ?thesis using Cons by simp
  qed
qed

lemma fileIds_nodesCreated:
  assumes "f \<in> set (ar_files ar)"
  shows "''file:'' @ path f \<in> nodeIds (nodesCreated s ar)"
proof -
  have 1: "nodeIds st \<subseteq> nodeIds (fold createFunctionNode fs st)" for fs st
    by (intro fold_nodeIds_mono) (rule nodeIds_createFunctionNode)
  have 2: "nodeIds st \<subseteq> nodeIds (fold createClassNode cs st)" for cs st
    by (intro fold_nodeIds_mono) (rule nodeIds_createClassNode)
  have 3: "nodeIds st \<subseteq> nodeIds (fold (\<lambda>cls. fold (\<lambda>mth. createMethodNode mth cls)
                                           (cls_methods cls)) cs st)" for cs st
    by (intro fold_nodeIds_mono) (rule nodeIds_createMethodNode)
  show ?thesis
    unfolding nodesCreated_def using fold_createFileNode_has[OF assms] 1 2 3 by blast
qed

lemma nodesCreated_ids_built:
  "k \<in> nodeIds (nodesCreated s ar) \<Longrightarrow>
   \<exists>n. map_of (nodeMap (buildGraph s analyzer ar)) k = Some n"
proof -
  assume "k \<in> nodeIds (nodesCreated s ar)"
  then have "k \<in> nodeIds (importsCreated s ar)" using importsCreated_props by blast
  then have "k \<in> fst ` set (nodeMap (buildGraph s analyzer ar))"
    using buildGraph_nodeMap[of s analyzer ar] by (simp add: nodeIds_def)
  then show ?thesis by (metis map_has_def map_has_iff not_Some_eq)
qed

text \<open>
  The facts of an analysis name files of the analysis: every function and class is declared
  in one of the analysed files, and a method in the file of its class.
\<close>

definition declaredInFiles :: "AnalysisResult \<Rightarrow> bool" where
  "declaredInFiles ar =
     ((\<forall>f \<in> set (ar_functions ar). fn_filePath f \<in> path ` set (ar_files ar))
      \<and> (\<forall>c \<in> set (ar_classes ar).
            cls_filePath c \<in> path ` set (ar_files ar)
            \<and> (\<forall>m \<in> set (cls_methods c). m_filePath m = cls_filePath c)))"

lemma built_file_node:
  assumes "F \<in> path ` set (ar_files ar)"
  shows "\<exists>fnode. map_of (nodeMap (buildGraph s analyzer ar)) (''file:'' @ F) = Some fnode
                 \<and> n_type fnode = File \<and> n_filePath fnode = F"
proof -
  obtain fnode where m: "map_of (nodeMap (buildGraph s analyzer ar)) (''file:'' @ F) = Some fnode"
    using assms fileIds_nodesCreated nodesCreated_ids_built by blast
  have "n_id fnode = ''file:'' @ F" using stateInv_node_id[OF inv_buildGraph m] .
  moreover have "nodeShape ar fnode" using built_nodeShape[OF m] .
  ultimately have "n_type fnode = File \<and> n_filePath fnode = F"
    unfolding nodeShape_def by auto
  then show ?thesis using m by blast
qed

lemma built_class_node:
  assumes names: "identifierNames ar" and c: "c \<in> set (ar_classes ar)"
  shows "\<exists>cn. map_of (nodeMap (buildGraph s analyzer ar))
                 (''class:'' @ cls_filePath c @ '':'' @ cls_name c) = Some cn
              \<and> n_parentId cn = Some (''file:'' @ cls_filePath c)"
proof -
  obtain cn where m: "map_of (nodeMap (buildGraph s analyzer ar))
                 (''class:'' @ cls_filePath c @ '':'' @ cls_name c) = Some cn"
    using classIds_nodesCreated[OF c] nodesCreated_ids_built by blast
  have id: "n_id cn = ''class:'' @ cls_filePath c @ '':'' @ cls_name c"
    using stateInv_node_id[OF inv_buildGraph m] .
  have "nodeShape ar cn" using built_nodeShape[OF m] .
  then obtain c' where c': "c' \<in> set (ar_classes ar)" "n_filePath cn = cls_filePath c'"
    "n_id cn = ''class:'' @ cls_filePath c' @ '':'' @ cls_name c'"
    "n_parentId cn = Some (''file:'' @ n_filePath cn)"
    using id unfolding nodeShape_def by auto
  have eq: "cls_filePath c' @ CHR '':'' # cls_name c' = cls_filePath c @ CHR '':'' # cls_name c"
    using id c'(3) by simp
  have z: "colons (cls_name c') = 0" "colons (cls_name c) = 0"
    using names c c'(1) unfolding identifierNames_def by (simp_all add: colons_free)
  have "colons (cls_filePath c' @ CHR '':'' # cls_name c')
        = colons (cls_filePath c @ CHR '':'' # cls_name c)"
    using eq by simp
  then have "colons (cls_filePath c') = colons (cls_filePath c)" using z by simp
  then have "cls_filePath c' = cls_filePath c" using split_at_colon[OF eq] by simp
  then show ?thesis using m c'(2,4) by simp
qed

text \<open>
  From every related id of a node, the parent links lead to the file node of the node's
  file.
\<close>

lemma built_anchor:
  assumes names: "identifierNames ar" and wf: "declaredInFiles ar"
    and N: "map_of (nodeMap (buildGraph s analyzer ar)) k = Some N"
    and closed: "parentClosed (graphOf (buildGraph s analyzer ar)) B"
    and k: "k \<in> set B"
  shows "\<exists>fid \<in> set B. \<exists>fnode.
           findNode (graphOf (buildGraph s analyzer ar)) fid = Some fnode
           \<and> n_type fnode = File \<and> n_filePath fnode = n_filePath N"
proof -
  define S where "S = buildGraph s analyzer ar"
  have i: "stateInv S" by (simp add: S_def inv_buildGraph)
  have fn: "findNode (graphOf S) x = map_of (nodeMap S) x" for x
    by (rule findNode_graphOf[OF i])
  have up: "p \<in> set B"
    if "x \<in> set B" "map_of (nodeMap S) x = Some n" "n_parentId n = Some p" "truthy p" for x n p
    using closed that unfolding parentClosed_def S_def[symmetric] fn by blast
  have anchor: "\<exists>fid \<in> set B. \<exists>fnode. findNode (graphOf S) fid = Some fnode
                 \<and> n_type fnode = File \<and> n_filePath fnode = F"
    if "''file:'' @ F \<in> set B" "F \<in> path ` set (ar_files ar)" for F
    using built_file_node[OF that(2), of s analyzer] that(1) unfolding S_def[symmetric] fn
    by blast
  have sh: "nodeShape ar N" using built_nodeShape[OF N] .
  have N': "map_of (nodeMap S) k = Some N" using N by (simp add: S_def)
  from sh consider (File) "n_type N = File"
    | (Function) f where "f \<in> set (ar_functions ar)" "n_filePath N = fn_filePath f"
        "n_parentId N = Some (''file:'' @ n_filePath N)"
    | (Class) c where "c \<in> set (ar_classes ar)" "n_filePath N = cls_filePath c"
        "n_parentId N = Some (''file:'' @ n_filePath N)"
    | (Method) c m where "c \<in> set (ar_classes ar)" "m \<in> set (cls_methods c)"
        "n_filePath N = m_filePath m"
        "n_parentId N = Some (''class:'' @ m_filePath m @ '':'' @ cls_name c)"
    unfolding nodeShape_def by blast
  then have "\<exists>fid \<in> set B. \<exists>fnode. findNode (graphOf S) fid = Some fnode
                 \<and> n_type fnode = File \<and> n_filePath fnode = n_filePath N"
  proof cases
    case File
    then show ?thesis using k N' fn by auto
  next
    case (Function f)
    have "''file:'' @ n_filePath N \<in> set B"
      using up[OF k N' Function(3)] by (simp add: truthy_def)
    moreover have "n_filePath N \<in> path ` set (ar_files ar)"
      using wf Function(1,2) unfolding declaredInFiles_def by simp
    ultimately show ?thesis by (rule anchor)
  next
    case (Class c)
    have "''file:'' @ n_filePath N \<in> set B"
      using up[OF k N' Class(3)] by (simp add: truthy_def)
    moreover have "n_filePath N \<in> path ` set (ar_files ar)"
      using wf Class(1,2) unfolding declaredInFiles_def by simp
    ultimately show ?thesis by (rule anchor)
  next
    case (Method c m)
    have mf: "m_filePath m = cls_filePath c"
      using wf Method(1,2) unfolding declaredInFiles_def by simp
    have cB: "''class:'' @ cls_filePath c @ '':'' @ cls_name c \<in> set B"
      using up[OF k N' Method(4)] mf by (simp add: truthy_def)
    obtain cn where cn: "map_of (nodeMap S) (''class:'' @ cls_filePath c @ '':'' @ cls_name c)
                           = Some cn"
      "n_parentId cn = Some (''file:'' @ cls_filePath c)"
      using built_class_node[OF names Method(1), of s analyzer] unfolding S_def[symmetric]
      by blast
    have "''file:'' @ n_filePath N \<in> set B"
      using up[OF cB cn] Method(3) mf by (simp add: truthy_def)
    moreover have "n_filePath N \<in> path ` set (ar_files ar)"
      using wf Method(1,3) mf unfolding declaredInFiles_def by simp
    ultimately show ?thesis by (rule anchor)
  qed
  then show ?thesis by (simp add: S_def)
qed

section \<open>File closure of the filtered graph\<close>

text \<open>
  Claim C3, for facts that name analysed files.  Let declaration names be identifiers, let
  every function and class be declared in an analysed file, and every method in the file of
  its class.  In the result of the context filter on the built graph, for every node \<open>N\<close>
  of the result, every node of the built graph with the file path of \<open>N\<close> is a node of the
  result too.  The closure pass adds the nodes of a file only through the file node of that
  file, so that the property is lost when a declaration's file has no file node.
\<close>

theorem filterGraphByLLMContext_file_closure:
  assumes "identifierNames ar" "declaredInFiles ar"
  shows "\<forall>N \<in> set (nodes (filterGraphByLLMContext (graphOf (buildGraph s analyzer ar)) ar
                             targetFile relatedFiles relatedFunctions relatedClasses focusNodes)).
         \<forall>M \<in> set (nodes (graphOf (buildGraph s analyzer ar))).
           n_filePath M = n_filePath N \<longrightarrow>
           M \<in> set (nodes (filterGraphByLLMContext (graphOf (buildGraph s analyzer ar)) ar
                             targetFile relatedFiles relatedFunctions relatedClasses focusNodes))"
proof (intro ballI impI)
  fix N M
  define G where "G = graphOf (buildGraph s analyzer ar)"
  define sd where
    "sd = seeds G ar targetFile relatedFiles relatedFunctions relatedClasses focusNodes"
  define rel where
    "rel = relatedNodeIds G ar targetFile relatedFiles relatedFunctions relatedClasses focusNodes"
  assume "N \<in> set (nodes (filterGraphByLLMContext (graphOf (buildGraph s analyzer ar)) ar
                           targetFile relatedFiles relatedFunctions relatedClasses focusNodes))"
    and M: "M \<in> set (nodes (graphOf (buildGraph s analyzer ar)))"
    and eq: "n_filePath M = n_filePath N"
  then have N: "N \<in> set (nodes G)" "n_id N \<in> set rel"
    by (simp_all add: filterGraphByLLMContext_def Let_def G_def rel_def)
  have i: "stateInv (buildGraph s analyzer ar)" by (rule inv_buildGraph)
  have stored: "map_of (nodeMap (buildGraph s analyzer ar)) (n_id N) = Some N"
    using N(1) graphOf_node_stored[OF i] by (simp add: G_def)
  have "n_id M \<in> set rel"
  proof (cases "length sd > 0")
    case False
    then have "rel = []" by (simp add: rel_def relatedNodeIds_def sd_def)
    then show ?thesis using N(2) by simp
  next
    case True
    define B where "B = bfs G sd [] sd"
    have rel: "rel = fileClosure G B"
      using True by (simp add: rel_def relatedNodeIds_def sd_def[symmetric] B_def)
    have closed: "parentClosed G B" unfolding B_def using bfs_seeds_closed by blast
    have "\<exists>fid \<in> set B. \<exists>fnode. findNode G fid = Some fnode \<and> n_type fnode = File
             \<and> n_filePath fnode = n_filePath N"
    proof (cases "n_id N \<in> set B")
      case True
      show ?thesis
        using built_anchor[OF assms stored closed[unfolded G_def] True] by (simp add: G_def)
    next
      case False
      then obtain fid fnode M' where f: "fid \<in> set B" "findNode G fid = Some fnode"
        "n_type fnode = File" "M' \<in> set (nodes G)" "n_id M' = n_id N"
        "n_filePath M' = n_filePath fnode"
        using fileClosure_cases[of "n_id N" G B] N(2) rel by auto
      have "map_of (nodeMap (buildGraph s analyzer ar)) (n_id M') = Some M'"
        using f(4) graphOf_node_stored[OF i] by (simp add: G_def)
      then have "M' = N" using stored f(5) by (metis option.inject)
      then show ?thesis using f by auto
    qed
    then obtain fid fnode where f: "fid \<in> set B" "findNode G fid = Some fnode"
      "n_type fnode = File" "n_filePath fnode = n_filePath N"
      by blast
    have "n_id M \<in> set (fileClosure G B)"
      using fileClosure_file[OF f(1-3), of M] M eq f(4) by (simp add: G_def)
    then show ?thesis by (simp add: rel)
  qed
  then show "M \<in> set (nodes (filterGraphByLLMContext (graphOf (buildGraph s analyzer ar)) ar
                           targetFile relatedFiles relatedFunctions relatedClasses focusNodes))"
    using M by (simp add: filterGraphByLLMContext_def Let_def G_def rel_def)
qed

text \<open>
  Two files; \<open>b.ts\<close> declares \<open>foo\<close> and \<open>bar\<close>, \<open>a.ts\<close> declares \<open>baz\<close>.  With the focus
  node \<open>function:b.ts:foo\<close> the result has the three nodes of \<open>b.ts\<close> and none of \<open>a.ts\<close>.
\<close>

definition closureFacts :: AnalysisResult where
  "closureFacts =
     \<lparr>ar_files = [\<lparr>path = ''a.ts'', content = ''''\<rparr>, \<lparr>path = ''b.ts'', content = ''''\<rparr>],
      ar_functions = [\<lparr>fn_name = ''foo'', fn_filePath = ''b.ts'', fn_line = 1, fn_column = 1,
                       fn_isExported = True, fn_isAsync = False, fn_parameters = [],
                       fn_returnType = None\<rparr>,
                      \<lparr>fn_name = ''bar'', fn_filePath = ''b.ts'', fn_line = 4, fn_column = 1,
                       fn_isExported = False, fn_isAsync = False, fn_parameters = [],
                       fn_returnType = None\<rparr>,
                      \<lparr>fn_name = ''baz'', fn_filePath = ''a.ts'', fn_line = 1, fn_column = 1,
                       fn_isExported = False, fn_isAsync = False, fn_parameters = [],
                       fn_returnType = None\<rparr>],
      ar_classes = [],
      ar_imports = []\<rparr>"

definition fooNode :: GraphNode where
  "fooNode = \<lparr>n_id = ''function:b.ts:foo'', n_label = ''foo'', n_type = Function,
               n_filePath = ''b.ts'', n_line = Some 1, n_column = Some 1,
               n_parentId = Some ''file:b.ts'',
               n_metadata = FunctionMetadata True False [] None\<rparr>"

definition barNode :: GraphNode where
  "barNode = \<lparr>n_id = ''function:b.ts:bar'', n_label = ''bar'', n_type = Function,
               n_filePath = ''b.ts'', n_line = Some 4, n_column = Some 1,
               n_parentId = Some ''file:b.ts'',
               n_metadata = FunctionMetadata False False [] None\<rparr>"

lemma build_closureFacts:
  "map n_id (nodes (graphOf (buildGraph cleared noSources closureFacts)))
     = [''file:a.ts'', ''file:b.ts'', ''function:b.ts:foo'', ''function:b.ts:bar'',
        ''function:a.ts:baz'']"
  "nodes (graphOf (buildGraph cleared noSources closureFacts)) ! 2 = fooNode"
  "nodes (graphOf (buildGraph cleared noSources closureFacts)) ! 3 = barNode"
  "map n_id (nodes (filterGraphByLLMContext
                      (graphOf (buildGraph cleared noSources closureFacts)) closureFacts
                      None None None None (Some [''function:b.ts:foo''])))
     = [''file:b.ts'', ''function:b.ts:foo'', ''function:b.ts:bar'']"
  "nodes (filterGraphByLLMContext
            (graphOf (buildGraph cleared noSources closureFacts)) closureFacts
            None None None None (Some [''function:b.ts:foo''])) ! 1 = fooNode"
  by code_simp+

theorem filterGraphByLLMContext_file_closure_witness:
  "identifierNames closureFacts \<and> declaredInFiles closureFacts
   \<and> fooNode \<in> set (nodes (filterGraphByLLMContext
                             (graphOf (buildGraph cleared noSources closureFacts)) closureFacts
                             None None None None (Some [''function:b.ts:foo''])))
   \<and> barNode \<in> set (nodes (graphOf (buildGraph cleared noSources closureFacts)))
   \<and> n_filePath barNode = n_filePath fooNode
   \<and> barNode \<in> set (nodes (filterGraphByLLMContext
                             (graphOf (buildGraph cleared noSources closureFacts)) closureFacts
                             None None None None (Some [''function:b.ts:foo''])))"
proof -
  have a: "identifierNames closureFacts" "declaredInFiles closureFacts"
    by (simp_all add: identifierNames_def declaredInFiles_def closureFacts_def)
  have l: "length (nodes (graphOf (buildGraph cleared noSources closureFacts))) = 5"
    "length (nodes (filterGraphByLLMContext
                      (graphOf (buildGraph cleared noSources closureFacts)) closureFacts
                      None None None None (Some [''function:b.ts:foo'']))) = 3"
    using arg_cong[OF build_closureFacts(1), of length]
      arg_cong[OF build_closureFacts(4), of length] by simp_all
  have "nodes (filterGraphByLLMContext
                 (graphOf (buildGraph cleared noSources closureFacts)) closureFacts
                 None None None None (Some [''function:b.ts:foo''])) ! 1
          \<in> set (nodes (filterGraphByLLMContext
                 (graphOf (buildGraph cleared noSources closureFacts)) closureFacts
                 None None None None (Some [''function:b.ts:foo''])))"
    by (rule nth_mem) (simp add: l(2))
  then have b: "fooNode \<in> set (nodes (filterGraphByLLMContext
                             (graphOf (buildGraph cleared noSources closureFacts)) closureFacts
                             None None None None (Some [''function:b.ts:foo''])))"
    unfolding build_closureFacts(5) .
  have "nodes (graphOf (buildGraph cleared noSources closureFacts)) ! 3
          \<in> set (nodes (graphOf (buildGraph cleared noSources closureFacts)))"
    by (rule nth_mem) (simp add: l(1))
  then have c: "barNode \<in> set (nodes (graphOf (buildGraph cleared noSources closureFacts)))"
    unfolding build_closureFacts(3) .
  have d: "n_filePath barNode = n_filePath fooNode" by (simp add: barNode_def fooNode_def)
  have "barNode \<in> set (nodes (filterGraphByLLMContext
                             (graphOf (buildGraph cleared noSources closureFacts)) closureFacts
                             None None None None (Some [''function:b.ts:foo''])))"
    using filterGraphByLLMContext_file_closure[OF a, of cleared noSources None None None None
            "Some [''function:b.ts:foo'']"] b c d by blast
  then show ?thesis using a b c d by simp
qed

text \<open>
  Without the file record of \<open>b.ts\<close>: the functions \<open>foo\<close> and \<open>bar\<close> of \<open>b.ts\<close> are
  nodes of the built graph, the parent id \<open>file:b.ts\<close> of both is the id of no node, and no
  containment edge is made.  With the focus node \<open>function:b.ts:foo\<close> the filter returns
  \<open>foo\<close> alone: \<open>bar\<close>, a node of the same file, is left out.
\<close>

definition orphanPairFacts :: AnalysisResult where
  "orphanPairFacts =
     \<lparr>ar_files = [],
      ar_functions = [\<lparr>fn_name = ''foo'', fn_filePath = ''b.ts'', fn_line = 1, fn_column = 1,
                       fn_isExported = True, fn_isAsync = False, fn_parameters = [],
                       fn_returnType = None\<rparr>,
                      \<lparr>fn_name = ''bar'', fn_filePath = ''b.ts'', fn_line = 4, fn_column = 1,
                       fn_isExported = False, fn_isAsync = False, fn_parameters = [],
                       fn_returnType = None\<rparr>],
      ar_classes = [],
      ar_imports = []\<rparr>"

theorem filterGraphByLLMContext_file_closure_counterexample:
  "graphOf (buildGraph cleared noSources orphanPairFacts)
     = \<lparr>nodes = [fooNode, barNode], edges = []\<rparr>
   \<and> filterGraphByLLMContext (graphOf (buildGraph cleared noSources orphanPairFacts))
         orphanPairFacts None None None None (Some [''function:b.ts:foo''])
       = \<lparr>nodes = [fooNode], edges = []\<rparr>
   \<and> snd (extractGraphData cleared noSources orphanPairFacts None None None None
              (Some [''function:b.ts:foo'']))
       = \<lparr>nodes = [fooNode], edges = []\<rparr>
   \<and> n_filePath barNode = n_filePath fooNode
   \<and> barNode \<noteq> fooNode"
proof -
  have 1: "graphOf (buildGraph cleared noSources orphanPairFacts)
             = \<lparr>nodes = [fooNode, barNode], edges = []\<rparr>"
    by code_simp
  have 2: "filterGraphByLLMContext (graphOf (buildGraph cleared noSources orphanPairFacts))
             orphanPairFacts None None None None (Some [''function:b.ts:foo''])
           = \<lparr>nodes = [fooNode], edges = []\<rparr>"
    by code_simp
  have 3: "snd (extractGraphData cleared noSources orphanPairFacts None None None None
                  (Some [''function:b.ts:foo'']))
           = \<lparr>nodes = [fooNode], edges = []\<rparr>"
    by code_simp
  have 4: "n_filePath barNode = n_filePath fooNode" "barNode \<noteq> fooNode"
    by (simp_all add: barNode_def fooNode_def)
  show ?thesis using 1 2 3 4 by simp
qed

text \<open>
  A method recorded under another path than its class: the parent id of the method node
  names no node, the file node of the method's path is never reached, and with the method as
  focus node the filter returns the method alone, without the file node \<open>file:b.ts\<close> that
  has its file path.
\<close>

definition strayMethodFacts :: AnalysisResult where
  "strayMethodFacts =
     \<lparr>ar_files = [\<lparr>path = ''a.ts'', content = ''''\<rparr>, \<lparr>path = ''b.ts'', content = ''''\<rparr>],
      ar_functions = [],
      ar_classes = [\<lparr>cls_name = ''C'', cls_filePath = ''a.ts'', cls_line = 1, cls_column = 1,
                     cls_isExported = True, cls_extends = None, cls_implements = [],
                     cls_methods = [\<lparr>m_name = ''m'', m_filePath = ''b.ts'', m_line = 2,
                                     m_column = 3, m_isPublic = True, m_isStatic = False,
                                     m_isAsync = False, m_parameters = [],
                                     m_returnType = None\<rparr>]\<rparr>],
      ar_imports = []\<rparr>"

lemma file_closure_needs_method_path:
  "map (\<lambda>n. (n_id n, n_filePath n))
     (nodes (graphOf (buildGraph cleared noSources strayMethodFacts)))
     = [(''file:a.ts'', ''a.ts''), (''file:b.ts'', ''b.ts''), (''class:a.ts:C'', ''a.ts''),
        (''method:b.ts:C.m'', ''b.ts'')]"
  "map n_id (nodes (filterGraphByLLMContext
                      (graphOf (buildGraph cleared noSources strayMethodFacts))
                      strayMethodFacts None None None None (Some [''method:b.ts:C.m''])))
     = [''method:b.ts:C.m'']"
  by code_simp+

end
